theory Spec2Isabelle
  imports Main "HOL-Library.AList"
begin

section \<open>The Dependency Cycle Tracker\<close>

text \<open>
  \<^verbatim>\<open>pendingModuleDependencyGraph\<close> is a \<^verbatim>\<open>Map<string, Set<string>>\<close>. A JavaScript
  \<^verbatim>\<open>Map\<close> is finite and iterates in insertion order, and so does a \<^verbatim>\<open>Set\<close>: the
  graph is an association list from a module url to the list of urls it has imported
  so far. \<^verbatim>\<open>Map.get\<close> is \<open>map_of\<close>, \<^verbatim>\<open>Map.has\<close> is \<open>map_of g k \<noteq> None\<close>.
\<close>

type_synonym url = string

type_synonym dep_graph = "(url \<times> url list) list"

text \<open>
  \<^verbatim>\<open>
  function addPendingModuleDependency(originUrl, depUrl) {
    if (pendingModuleDependencyGraph.has(originUrl)) {
      pendingModuleDependencyGraph.get(originUrl)!.add(depUrl)
    } else {
      pendingModuleDependencyGraph.set(originUrl, new Set([depUrl]))
    }
  }
  \<close>
  \<^verbatim>\<open>Set.add\<close> of an element that is already there changes nothing; a new element goes
  last. \<^verbatim>\<open>Map.set\<close> of a new key puts the entry last.
\<close>

definition set_add :: "url \<Rightarrow> url list \<Rightarrow> url list" where
  "set_add x xs = (if x \<in> set xs then xs else xs @ [x])"

definition addPendingModuleDependency :: "url \<Rightarrow> url \<Rightarrow> dep_graph \<Rightarrow> dep_graph" where
  "addPendingModuleDependency originUrl depUrl g =
     (case map_of g originUrl of
        Some deps \<Rightarrow> AList.update originUrl (set_add depUrl deps) g
      | None \<Rightarrow> g @ [(originUrl, [depUrl])])"

text \<open>
  \<^verbatim>\<open>
  function checkModuleDependencyExists(originUrl, targetUrl) {
    const visited = new Set()
    const stack = [originUrl]
    while (stack.length) {
      const currentUrl = stack.pop()!
      if (currentUrl === targetUrl) { return true }
      if (!visited.has(currentUrl)) {
        visited.add(currentUrl)
        const dependencies = pendingModuleDependencyGraph.get(currentUrl)
        if (dependencies) {
          for (const depUrl of dependencies) {
            if (!visited.has(depUrl)) { stack.push(depUrl) }
          }
        }
      }
    }
    return false
  }
  \<close>
  The loop is the function \<open>checkLoop\<close> on the loop's variables \<open>visited\<close> and
  \<open>stack\<close>. The stack is a list whose head is the top of the JavaScript array (its last
  element): \<^verbatim>\<open>pop\<close> takes the head, and pushing \<open>d\<^sub>1, \<dots>, d\<^sub>n\<close> in iteration order
  leaves \<open>d\<^sub>n\<close> on top, which is \<open>rev\<close> of the pushed elements in front of the rest.
  The test \<^verbatim>\<open>!visited.has(depUrl)\<close> runs after \<^verbatim>\<open>visited.add(currentUrl)\<close>.
\<close>

function checkLoop :: "dep_graph \<Rightarrow> url \<Rightarrow> url set \<Rightarrow> url list \<Rightarrow> bool" where
  "checkLoop g targetUrl visited [] = False"
| "checkLoop g targetUrl visited (currentUrl # stack) =
     (if currentUrl = targetUrl then True
      else if currentUrl \<notin> visited then
        (case map_of g currentUrl of
           Some dependencies \<Rightarrow>
             checkLoop g targetUrl (insert currentUrl visited)
               (rev (filter (\<lambda>depUrl. depUrl \<notin> insert currentUrl visited) dependencies) @ stack)
         | None \<Rightarrow> checkLoop g targetUrl (insert currentUrl visited) stack)
      else checkLoop g targetUrl visited stack)"
  by pat_completeness auto

text \<open>
  The loop terminates on every graph: either an unvisited key of the (finite) map is
  marked visited, or the set of unvisited keys stays as it is and the stack gets
  shorter.
\<close>

termination
proof (relation "measures [\<lambda>(g, t, v, s). card (fst ` set g - v), \<lambda>(g, t, v, s). length s]",
    goal_cases)
  case 1
  show ?case by simp
next
  case (2 g targetUrl visited currentUrl stack)
  have "currentUrl \<notin> fst ` set g"
    using 2(3) by (simp add: map_of_eq_None_iff)
  then have "fst ` set g - insert currentUrl visited = fst ` set g - visited"
    by blast
  then show ?case by simp
next
  case (3 g targetUrl visited currentUrl stack dependencies)
  have "currentUrl \<in> fst ` set g"
    using 3(3) by (metis map_of_eq_None_iff option.distinct(1))
  with 3(2) have "fst ` set g - insert currentUrl visited \<subset> fst ` set g - visited"
    by blast
  then have "card (fst ` set g - insert currentUrl visited) < card (fst ` set g - visited)"
    by (intro psubset_card_mono) simp_all
  then show ?case by simp
next
  case 4
  then show ?case by simp
qed

definition checkModuleDependencyExists :: "dep_graph \<Rightarrow> url \<Rightarrow> url \<Rightarrow> bool" where
  "checkModuleDependencyExists g originUrl targetUrl = checkLoop g targetUrl {} [originUrl]"

text \<open>The registered static edges: \<open>a\<close> has an entry and \<open>b\<close> is in its set.\<close>

definition edges :: "dep_graph \<Rightarrow> (url \<times> url) set" where
  "edges g = {(a, b). \<exists>deps. map_of g a = Some deps \<and> b \<in> set deps}"

text \<open>
  The invariant of the loop: every edge out of a visited node leads to a visited node
  or to a node on the stack.
\<close>

definition closed_under :: "dep_graph \<Rightarrow> url set \<Rightarrow> url list \<Rightarrow> bool" where
  "closed_under g visited stack =
     (\<forall>a b. a \<in> visited \<and> (a, b) \<in> edges g \<longrightarrow> b \<in> visited \<or> b \<in> set stack)"

section \<open>JavaScript values and objects\<close>

text \<open>
  The values the loader handles. Numbers are modelled as integers plus \<open>NaN\<close> (the
  loader only tests them for truthiness). \<open>JObj\<close> and \<open>JFun\<close> are references into the
  heap of objects (\<^verbatim>\<open>typeof\<close> is \<^verbatim>\<open>'object'\<close> resp. \<^verbatim>\<open>'function'\<close>).
  \<open>JError msg\<close> is an \<^verbatim>\<open>Error\<close> object with that message.
\<close>

datatype js_value =
    JUndefined
  | JNull
  | JBool bool
  | JNum int
  | JNaN
  | JBigInt int
  | JStr string
  | JSym string
  | JObj nat
  | JFun nat
  | JError string

text \<open>The \<^verbatim>\<open>TypeError\<close> object that the engine throws.\<close>

definition type_error :: js_value where
  "type_error = JError ''TypeError''"

text \<open>\<^verbatim>\<open>if (v)\<close>, \<^verbatim>\<open>!v\<close>: the falsy values are \<^verbatim>\<open>undefined, null, false, 0, NaN, 0n, ''\<close>.\<close>

fun truthy :: "js_value \<Rightarrow> bool" where
  "truthy JUndefined = False"
| "truthy JNull = False"
| "truthy (JBool b) = b"
| "truthy (JNum n) = (n \<noteq> 0)"
| "truthy JNaN = False"
| "truthy (JBigInt n) = (n \<noteq> 0)"
| "truthy (JStr s) = (s \<noteq> [])"
| "truthy (JSym s) = True"
| "truthy (JObj r) = True"
| "truthy (JFun r) = True"
| "truthy (JError m) = True"

fun js_typeof :: "js_value \<Rightarrow> string" where
  "js_typeof JUndefined = ''undefined''"
| "js_typeof JNull = ''object''"
| "js_typeof (JBool b) = ''boolean''"
| "js_typeof (JNum n) = ''number''"
| "js_typeof JNaN = ''number''"
| "js_typeof (JBigInt n) = ''bigint''"
| "js_typeof (JStr s) = ''string''"
| "js_typeof (JSym s) = ''symbol''"
| "js_typeof (JObj r) = ''object''"
| "js_typeof (JFun r) = ''function''"
| "js_typeof (JError m) = ''object''"

text \<open>
  \<^verbatim>\<open>
  function isPrimitive(value) {
    return !value || (typeof value !== 'object' && typeof value !== 'function')
  }
  \<close>
\<close>

definition isPrimitive :: "js_value \<Rightarrow> bool" where
  "isPrimitive value =
     (\<not> truthy value \<or> (js_typeof value \<noteq> ''object'' \<and> js_typeof value \<noteq> ''function''))"

text \<open>\<^verbatim>\<open>x ?? y\<close> and \<^verbatim>\<open>x?.[k]\<close> test for \<^verbatim>\<open>null\<close> and \<^verbatim>\<open>undefined\<close>.\<close>

definition nullish :: "js_value \<Rightarrow> bool" where
  "nullish v = (v = JNull \<or> v = JUndefined)"

text \<open>
  A property key is a string or a symbol. A property is a data property or an accessor;
  the only accessors the loader creates are the getters of \<^verbatim>\<open>ssrExportAll\<close>,
  \<^verbatim>\<open>get() { return sourceModule[key] }\<close>, which capture the source object and the key.
  An object is its own properties in insertion order and its extensible flag. The
  prototype chain is not part of the heap: no object here inherits an enumerable
  property, and what the reads of the interop shim find on the chain is a parameter
  (\<open>builtins\<close> below).
\<close>

datatype pkey = StrKey string | SymKey string

datatype slot = Data js_value | Getter nat pkey

record property =
  slot :: slot
  enumerable :: bool
  configurable :: bool
  writable :: bool

record js_object =
  props :: "(pkey \<times> property) list"
  extensible :: bool

type_synonym heap = "js_object list"

abbreviation default_key :: pkey where
  "default_key \<equiv> StrKey ''default''"

abbreviation esModule_key :: pkey where
  "esModule_key \<equiv> StrKey ''__esModule''"

definition own_property :: "heap \<Rightarrow> nat \<Rightarrow> pkey \<Rightarrow> property option" where
  "own_property h r k = (if r < length h then map_of (props (h ! r)) k else None)"

text \<open>
  Reading \<^verbatim>\<open>obj[key]\<close>. A getter of \<^verbatim>\<open>ssrExportAll\<close> reads another object, whose
  property may be such a getter again, and such chains can be cyclic: the first
  argument bounds the number of nested getter calls, and \<open>None\<close> is the call stack
  running out (JavaScript's \<^verbatim>\<open>RangeError\<close>). An absent property reads as
  \<^verbatim>\<open>undefined\<close>.
\<close>

primrec js_get :: "nat \<Rightarrow> heap \<Rightarrow> nat \<Rightarrow> pkey \<Rightarrow> js_value option" where
  "js_get 0 h r k =
     (case own_property h r k of
        None \<Rightarrow> Some JUndefined
      | Some p \<Rightarrow> (case slot p of Data v \<Rightarrow> Some v | Getter src k' \<Rightarrow> None))"
| "js_get (Suc n) h r k =
     (case own_property h r k of
        None \<Rightarrow> Some JUndefined
      | Some p \<Rightarrow> (case slot p of Data v \<Rightarrow> Some v | Getter src k' \<Rightarrow> js_get n h src k'))"

text \<open>
  The built-in objects of the engine are not code of the loader, and what a read finds
  on them is a parameter: for an object of the heap, the value of a key on its
  prototype chain (\<open>inherited\<close>, \<open>None\<close> when no object of the chain has the key); for a
  value that is not on the heap, a primitive read through its wrapper or an \<^verbatim>\<open>Error\<close>
  object, the value of a key, own or inherited (\<open>builtin_property\<close>: \<^verbatim>\<open>'abc'.length\<close> is
  \<^verbatim>\<open>3\<close>); and what a new plain object inherits from \<^verbatim>\<open>Object.prototype\<close>
  (\<open>object_prototype\<close>).
\<close>

record builtins =
  inherited :: "nat \<Rightarrow> pkey \<Rightarrow> js_value option"
  builtin_property :: "js_value \<Rightarrow> pkey \<Rightarrow> js_value option"
  object_prototype :: "pkey \<Rightarrow> js_value option"

text \<open>A key that is found nowhere reads as \<^verbatim>\<open>undefined\<close>.\<close>

definition found :: "js_value option \<Rightarrow> js_value" where
  "found x = (case x of None \<Rightarrow> JUndefined | Some v \<Rightarrow> v)"

text \<open>
  \<^verbatim>\<open>obj[key]\<close> with the prototype chain: an own property first (a getter of
  \<^verbatim>\<open>ssrExportAll\<close> reads its source in the same way, under the same bound on nested
  getter calls as \<open>js_get\<close>), then the chain.
\<close>

primrec js_read :: "nat \<Rightarrow> builtins \<Rightarrow> heap \<Rightarrow> nat \<Rightarrow> pkey \<Rightarrow> js_value option" where
  "js_read 0 B h r k =
     (case own_property h r k of
        None \<Rightarrow> Some (found (inherited B r k))
      | Some p \<Rightarrow> (case slot p of Data v \<Rightarrow> Some v | Getter src k' \<Rightarrow> None))"
| "js_read (Suc n) B h r k =
     (case own_property h r k of
        None \<Rightarrow> Some (found (inherited B r k))
      | Some p \<Rightarrow> (case slot p of Data v \<Rightarrow> Some v | Getter src k' \<Rightarrow> js_read n B h src k'))"

text \<open>
  \<^verbatim>\<open>v[key]\<close> for a value \<open>v\<close> that is not \<^verbatim>\<open>null\<close> or \<^verbatim>\<open>undefined\<close>, and \<^verbatim>\<open>key in v\<close>
  for a \<open>v\<close> that is not a primitive. The source guards every read and every \<^verbatim>\<open>in\<close>
  so (\<^verbatim>\<open>isPrimitive\<close>, \<^verbatim>\<open>?.\<close>); on the other values, where JavaScript throws a
  \<^verbatim>\<open>TypeError\<close>, the two functions are never evaluated.
\<close>

fun get_value :: "nat \<Rightarrow> builtins \<Rightarrow> heap \<Rightarrow> js_value \<Rightarrow> pkey \<Rightarrow> js_value option" where
  "get_value n B h (JObj r) k = js_read n B h r k"
| "get_value n B h (JFun r) k = js_read n B h r k"
| "get_value n B h v k = Some (found (builtin_property B v k))"

fun has_property :: "builtins \<Rightarrow> heap \<Rightarrow> js_value \<Rightarrow> pkey \<Rightarrow> bool" where
  "has_property B h (JObj r) k = (own_property h r k \<noteq> None \<or> inherited B r k \<noteq> None)"
| "has_property B h (JFun r) k = (own_property h r k \<noteq> None \<or> inherited B r k \<noteq> None)"
| "has_property B h v k = (builtin_property B v k \<noteq> None)"

text \<open>
  \<^verbatim>\<open>Object.defineProperty(obj, key, desc)\<close>: a new key needs an extensible object, an
  existing one a configurable property; otherwise it throws a \<^verbatim>\<open>TypeError\<close> (\<open>None\<close>).
  (JavaScript accepts the redefinition of a non-configurable property that changes
  nothing; the descriptors defined here carry a fresh getter, which is a change.)
\<close>

definition define_property :: "heap \<Rightarrow> nat \<Rightarrow> pkey \<Rightarrow> property \<Rightarrow> heap option" where
  "define_property h r k p =
     (if r < length h then
        (case map_of (props (h ! r)) k of
           None \<Rightarrow>
             if extensible (h ! r)
             then Some (h[r := (h ! r)\<lparr>props := props (h ! r) @ [(k, p)]\<rparr>])
             else None
         | Some old \<Rightarrow>
             if configurable old
             then Some (h[r := (h ! r)\<lparr>props := AList.update k p (props (h ! r))\<rparr>])
             else None)
      else None)"

text \<open>\<^verbatim>\<open>Object.freeze(obj)\<close>; it returns \<^verbatim>\<open>obj\<close> itself.\<close>

definition js_freeze :: "heap \<Rightarrow> nat \<Rightarrow> heap" where
  "js_freeze h r =
     (if r < length h then
        h[r := \<lparr>props = map (\<lambda>(k, p). (k, p\<lparr>configurable := False, writable := False\<rparr>))
                          (props (h ! r)),
                extensible = False\<rparr>]
      else h)"

definition frozen :: "heap \<Rightarrow> nat \<Rightarrow> bool" where
  "frozen h r =
     (r < length h \<and> \<not> extensible (h ! r) \<and>
      list_all (\<lambda>(k, p). \<not> configurable p \<and> \<not> writable p) (props (h ! r)))"

section \<open>The legacy interop shim\<close>

text \<open>
  \<^verbatim>\<open>
  function proxyESM(mod) {
    if (isPrimitive(mod)) return { default: mod }
    let defaultExport = 'default' in mod ? mod.default : mod
    if (!isPrimitive(defaultExport) && '__esModule' in defaultExport) {
      mod = defaultExport
      if ('default' in defaultExport) {
        defaultExport = defaultExport.default
      }
    }
    return new Proxy(mod, {
      get(mod, prop) {
        if (prop === 'default') return defaultExport
        return mod[prop] ?? defaultExport?.[prop]
      },
    })
  }
  \<close>
  The function only reads the heap. Its result is either the fresh object
  \<^verbatim>\<open>{ default: mod }\<close> (\<open>Container\<close>) or the proxy (\<open>ReadThrough\<close>) with its target
  \<^verbatim>\<open>mod\<close> and the \<^verbatim>\<open>defaultExport\<close> its handler has captured. \<open>proxy_get\<close> is the
  handler's \<^verbatim>\<open>get\<close> trap, \<open>proxy_read\<close> a property read on the proxy, \<open>shim_get\<close> a
  property read on the result and \<open>shim_keys\<close> its own enumerable keys (a proxy
  without an \<^verbatim>\<open>ownKeys\<close> trap has its target's, an \<^verbatim>\<open>Error\<close> object has none). The
  source's variable \<^verbatim>\<open>mod\<close> is \<open>md\<close> here, since \<open>mod\<close> is the remainder of HOL.
\<close>

datatype shim = Container js_value | ReadThrough js_value js_value

definition proxyESM :: "nat \<Rightarrow> builtins \<Rightarrow> heap \<Rightarrow> js_value \<Rightarrow> shim option" where
  "proxyESM n B h md =
     (if isPrimitive md then Some (Container md)
      else
        (case (if has_property B h md default_key then get_value n B h md default_key
               else Some md) of
           None \<Rightarrow> None
         | Some defaultExport \<Rightarrow>
             if \<not> isPrimitive defaultExport \<and> has_property B h defaultExport esModule_key then
               (if has_property B h defaultExport default_key then
                  (case get_value n B h defaultExport default_key of
                     None \<Rightarrow> None
                   | Some d \<Rightarrow> Some (ReadThrough defaultExport d))
                else Some (ReadThrough defaultExport defaultExport))
             else Some (ReadThrough md defaultExport)))"

definition proxy_get ::
  "nat \<Rightarrow> builtins \<Rightarrow> heap \<Rightarrow> js_value \<Rightarrow> js_value \<Rightarrow> pkey \<Rightarrow> js_value option" where
  "proxy_get n B h md defaultExport prop =
     (if prop = default_key then Some defaultExport
      else
        (case get_value n B h md prop of
           None \<Rightarrow> None
         | Some v \<Rightarrow>
             if nullish v then
               (if nullish defaultExport then Some JUndefined
                else get_value n B h defaultExport prop)
             else Some v))"

text \<open>
  A property read on a proxy calls the trap and then checks the trap's result against
  the target: when the target has the key as an own data property that is neither
  configurable nor writable, and the result is not that property's value, the read
  throws a \<^verbatim>\<open>TypeError\<close>. (The values are compared with \<^verbatim>\<open>SameValue\<close>, which is
  equality on \<open>js_value\<close>. The second check, on an accessor without a getter, never
  applies: every accessor here has a getter. The own properties of an \<^verbatim>\<open>Error\<close>
  object are configurable.)
\<close>

fun own_property_of :: "heap \<Rightarrow> js_value \<Rightarrow> pkey \<Rightarrow> property option" where
  "own_property_of h (JObj r) k = own_property h r k"
| "own_property_of h (JFun r) k = own_property h r k"
| "own_property_of h v k = None"

definition violates_get_invariant :: "heap \<Rightarrow> js_value \<Rightarrow> pkey \<Rightarrow> js_value \<Rightarrow> bool" where
  "violates_get_invariant h target prop trapResult =
     (case own_property_of h target prop of
        None \<Rightarrow> False
      | Some p \<Rightarrow>
          \<not> configurable p \<and>
          (case slot p of
             Data v \<Rightarrow> \<not> writable p \<and> trapResult \<noteq> v
           | Getter src k' \<Rightarrow> False))"

definition proxy_read ::
  "nat \<Rightarrow> builtins \<Rightarrow> heap \<Rightarrow> js_value \<Rightarrow> js_value \<Rightarrow> pkey \<Rightarrow> (js_value + js_value) option" where
  "proxy_read n B h md defaultExport prop =
     (case proxy_get n B h md defaultExport prop of
        None \<Rightarrow> None
      | Some trapResult \<Rightarrow>
          Some (if violates_get_invariant h md prop trapResult then Inl type_error
                else Inr trapResult))"

text \<open>
  A read returns the value (\<open>Inr\<close>), throws (\<open>Inl\<close>), or exceeds the bound on nested
  getter calls (\<open>None\<close>).
\<close>

fun shim_get ::
  "nat \<Rightarrow> builtins \<Rightarrow> heap \<Rightarrow> shim \<Rightarrow> pkey \<Rightarrow> (js_value + js_value) option" where
  "shim_get n B h (Container v) prop =
     Some (Inr (if prop = default_key then v else found (object_prototype B prop)))"
| "shim_get n B h (ReadThrough md defaultExport) prop = proxy_read n B h md defaultExport prop"

text \<open>
  The own enumerable string keys of an object, in the order of their creation. (An
  engine lists the keys that are array indices first, in ascending order; and
  \<^verbatim>\<open>for ... in\<close> goes on with the enumerable keys of the prototype chain, of which the
  objects here have none. Nothing below depends on the order.)
\<close>

definition for_in_keys :: "heap \<Rightarrow> nat \<Rightarrow> pkey list" where
  "for_in_keys h r =
     (if r < length h then
        filter (\<lambda>k. (case k of StrKey s \<Rightarrow> True | SymKey s \<Rightarrow> False) \<and>
                    (case map_of (props (h ! r)) k of Some p \<Rightarrow> enumerable p | None \<Rightarrow> False))
          (map fst (props (h ! r)))
      else [])"

fun shim_keys :: "heap \<Rightarrow> shim \<Rightarrow> pkey list" where
  "shim_keys h (Container v) = [default_key]"
| "shim_keys h (ReadThrough (JObj r) defaultExport) = for_in_keys h r"
| "shim_keys h (ReadThrough (JFun r) defaultExport) = for_in_keys h r"
| "shim_keys h (ReadThrough md defaultExport) = []"

text \<open>
  Modelled from the spec: the shim as section 4.5 of the specification words it. The
  candidate is "the value under the reserved default-export key if present, else the
  exports value itself; if that candidate itself carries a legacy module marker and
  itself has a nested default-export key, unwraps one level further"
  (\<open>spec_first_candidate\<close>, \<open>spec_carries_marker\<close>, \<open>spec_default_candidate\<close>). The
  wrapper's reads "for the reserved default-export key return the computed candidate;
  all other reads return the underlying property if present, else fall back to the
  candidate's same-named property" (\<open>spec_shim_get\<close>); the underlying object is the
  exports value the shim was applied to.
\<close>

definition spec_first_candidate :: "nat \<Rightarrow> builtins \<Rightarrow> heap \<Rightarrow> js_value \<Rightarrow> js_value option" where
  "spec_first_candidate n B h md =
     (if has_property B h md default_key then get_value n B h md default_key else Some md)"

definition spec_carries_marker :: "builtins \<Rightarrow> heap \<Rightarrow> js_value \<Rightarrow> bool" where
  "spec_carries_marker B h c = (\<not> isPrimitive c \<and> has_property B h c esModule_key)"

definition spec_default_candidate :: "nat \<Rightarrow> builtins \<Rightarrow> heap \<Rightarrow> js_value \<Rightarrow> js_value option" where
  "spec_default_candidate n B h md =
     (case spec_first_candidate n B h md of
        None \<Rightarrow> None
      | Some c \<Rightarrow>
          if spec_carries_marker B h c \<and> has_property B h c default_key
          then get_value n B h c default_key else Some c)"

definition spec_shim_get ::
  "nat \<Rightarrow> builtins \<Rightarrow> heap \<Rightarrow> js_value \<Rightarrow> pkey \<Rightarrow> js_value option" where
  "spec_shim_get n B h md prop =
     (case spec_default_candidate n B h md of
        None \<Rightarrow> None
      | Some d \<Rightarrow>
          if prop = default_key then Some d
          else if has_property B h md prop then get_value n B h md prop
          else if nullish d then Some JUndefined
          else get_value n B h d prop)"

section \<open>Re-export-all\<close>

text \<open>
  \<^verbatim>\<open>
  function ssrExportAll(sourceModule) {
    for (const key in sourceModule) {
      if (key !== 'default' && key !== '__esModule') {
        Object.defineProperty(ssrModule, key, {
          enumerable: true,
          configurable: true,
          get() { return sourceModule[key] },
        })
      }
    }
  }
  \<close>
  \<^verbatim>\<open>sourceModule\<close> is the exports object of an imported module, a heap object;
  \<^verbatim>\<open>for ... in\<close> visits its enumerable string keys (\<open>for_in_keys\<close>). \<open>ssrModule\<close> is
  the exports container of the module being instantiated. The result is the heap
  and whether the call returned (\<open>True\<close>) or \<^verbatim>\<open>Object.defineProperty\<close> threw its
  \<^verbatim>\<open>TypeError\<close> (\<open>False\<close>, with the getters installed until then).
\<close>

definition export_getter :: "nat \<Rightarrow> pkey \<Rightarrow> property" where
  "export_getter sourceModule key =
     \<lparr>slot = Getter sourceModule key, enumerable = True, configurable = True, writable = False\<rparr>"

fun ssrExportAll_loop :: "heap \<Rightarrow> nat \<Rightarrow> nat \<Rightarrow> pkey list \<Rightarrow> bool \<times> heap" where
  "ssrExportAll_loop h ssrModule sourceModule [] = (True, h)"
| "ssrExportAll_loop h ssrModule sourceModule (key # keys) =
     (if key \<noteq> default_key \<and> key \<noteq> esModule_key then
        (case define_property h ssrModule key (export_getter sourceModule key) of
           None \<Rightarrow> (False, h)
         | Some h' \<Rightarrow> ssrExportAll_loop h' ssrModule sourceModule keys)
      else ssrExportAll_loop h ssrModule sourceModule keys)"

definition ssrExportAll :: "heap \<Rightarrow> nat \<Rightarrow> nat \<Rightarrow> bool \<times> heap" where
  "ssrExportAll h ssrModule sourceModule =
     ssrExportAll_loop h ssrModule sourceModule (for_in_keys h sourceModule)"

text \<open>
  An exports container under construction: extensible, and every property but the
  module marker configurable. \<^verbatim>\<open>instantiateModule\<close> creates it so, and
  \<^verbatim>\<open>ssrExportAll\<close> keeps it so.
\<close>

definition open_container :: "heap \<Rightarrow> nat \<Rightarrow> bool" where
  "open_container h r =
     (r < length h \<and> extensible (h ! r) \<and>
      list_all (\<lambda>(k, p). configurable p \<or> k = esModule_key) (props (h ! r)))"

section \<open>The loader's state\<close>

text \<open>
  A module body is the code \<^verbatim>\<open>new AsyncFunction(...)\<close> builds from the transform
  result. It acts on the loader only through the arguments \<^verbatim>\<open>initModule\<close> passes
  it, so it is modelled by the calls it makes on them, in order, each import awaited
  before the body goes on (as the transformed code of a static import does): it
  returns, throws, awaits \<^verbatim>\<open>__vite_ssr_import__(dep)\<close> or
  \<^verbatim>\<open>__vite_ssr_dynamic_import__(dep)\<close> and goes on with the module it gets, calls
  \<^verbatim>\<open>__vite_ssr_exportAll__(obj)\<close>, or defines an export on \<^verbatim>\<open>__vite_ssr_exports__\<close>.
  A failed import is not caught by the body.
\<close>

datatype body =
    Return
  | Throw js_value
  | Import string "js_value \<Rightarrow> body"
  | DynamicImport string "js_value \<Rightarrow> body"
  | ExportAll nat body
  | DefineExport string js_value body

text \<open>
  The Module Record of the module graph, with the fields this file reads and writes.
  \<^verbatim>\<open>ssrError\<close> holds any thrown value (\<^verbatim>\<open>null\<close> when there is none), \<^verbatim>\<open>ssrModule\<close> an
  object or nothing.
\<close>

record module_node =
  ssrError :: js_value
  ssrModule :: "nat option"
  ssrTransformResult :: "body option"

definition blank_node :: module_node where
  "blank_node = \<lparr>ssrError = JNull, ssrModule = None, ssrTransformResult = None\<rparr>"

text \<open>
  What the file imports from elsewhere is a parameter: \<^verbatim>\<open>unwrapId\<close>,
  \<^verbatim>\<open>transformRequest\<close> (it rejects, or resolves to a result or to nothing),
  the resolution and native loading of \<^verbatim>\<open>nodeImport\<close> for an importer and a
  specifier (it rejects or resolves to a module),
  \<^verbatim>\<open>path.posix.resolve(path.dirname(url), dep)\<close>, and which symbols the engine
  takes as the key of a \<^verbatim>\<open>WeakMap\<close> (none before ECMAScript 2023, the symbols that
  are not registered since).
\<close>

record env =
  unwrapId :: "string \<Rightarrow> string"
  transformRequest :: "url \<Rightarrow> js_value + body option"
  nodeImport :: "url \<Rightarrow> string \<Rightarrow> js_value + js_value"
  resolve_relative :: "url \<Rightarrow> string \<Rightarrow> string"
  symbol_weak_key :: "string \<Rightarrow> bool"

text \<open>
  Modelled from the spec: the module graph store, whose code is not in the loader's file.
  \<^verbatim>\<open>ensureEntryFromUrl(url)\<close> "creates \<open>[the record]\<close> if absent" and
  \<^verbatim>\<open>urlToModuleMap.get(dep)?.ssrModule\<close> is \<^verbatim>\<open>undefined\<close> for an absent record, so the
  store is a total function from urls to records, \<open>blank_node\<close> where none was created.

  \<open>pendingModules\<close> maps a url to its promise; promises are numbered as they are
  created (\<open>next_promise\<close>). \<open>executed\<close> is the log of the module bodies run, the
  side-effect counter the specification's test reads. \<open>js_heap\<close> holds the objects.
\<close>

record loader_state =
  urlToModuleMap :: "url \<Rightarrow> module_node"
  pendingModules :: "url \<rightharpoonup> nat"
  next_promise :: nat
  pendingModuleDependencyGraph :: dep_graph
  js_heap :: heap
  executed :: "url list"

definition init_state :: loader_state where
  "init_state =
     \<lparr>urlToModuleMap = (\<lambda>u. blank_node), pendingModules = Map.empty, next_promise = 0,
      pendingModuleDependencyGraph = [], js_heap = [], executed = []\<rparr>"

text \<open>
  How the promise of a load ends in a run in which every import is awaited:
  it resolves, it rejects, or it never settles (\<open>Pending\<close>: the load waits for a promise
  of an instantiation that is itself waiting). A body completes normally, throws, or
  is stuck on such a promise.
\<close>

datatype settle = Resolved js_value | Rejected js_value | Pending

datatype completion = Normal | Abrupt js_value | Stuck

type_synonym loader = "url \<Rightarrow> loader_state \<Rightarrow> (settle \<times> loader_state) option"

section \<open>The import functions\<close>

text \<open>
  \<^verbatim>\<open>
  const ssrImport = async (dep, metadata) => {
    try {
      if (dep[0] !== '.' && dep[0] !== '/') {
        return await nodeImport(dep, mod.file!, resolveOptions, metadata)
      }
      dep = unwrapId(dep)
      if (!metadata?.isDynamicImport) {
        addPendingModuleDependency(url, dep)
        if (checkModuleDependencyExists(dep, url)) {
          const depSsrModule = moduleGraph.urlToModuleMap.get(dep)?.ssrModule
          if (!depSsrModule) {
            throw new Error('[vite] The dependency module is not yet fully ...')
          }
          return depSsrModule
        }
      }
      return ssrLoadModule(dep, server, context, fixStacktrace)
    } catch (err) {
      importErrors.set(err, { importee: dep })
      throw err
    }
  }
  \<close>
  \<open>L\<close> is \<^verbatim>\<open>ssrLoadModule\<close>, \<open>url\<close> the module being instantiated. \<^verbatim>\<open>dep[0]\<close> of
  the empty string is \<^verbatim>\<open>undefined\<close>.

  The \<^verbatim>\<open>catch\<close> block sees what is thrown inside the \<^verbatim>\<open>try\<close>: a rejection of the
  awaited \<^verbatim>\<open>nodeImport\<close> and the error of the uninitialized cycle. The promise of
  \<^verbatim>\<open>ssrLoadModule\<close> is returned without being awaited, so its rejection does not pass
  through the block. \<^verbatim>\<open>importErrors\<close> is a \<^verbatim>\<open>WeakMap\<close>: \<^verbatim>\<open>importErrors.set(err, ...)\<close>
  throws a \<^verbatim>\<open>TypeError\<close> when \<^verbatim>\<open>err\<close> cannot be held weakly (a primitive; for a symbol
  the engine decides), and then the import rejects with that \<^verbatim>\<open>TypeError\<close> and not
  with \<^verbatim>\<open>err\<close> (\<open>catch_import_error\<close>). The entries of the map only feed the log
  message and are not kept in the state.
\<close>

fun can_be_held_weakly :: "env \<Rightarrow> js_value \<Rightarrow> bool" where
  "can_be_held_weakly env (JObj r) = True"
| "can_be_held_weakly env (JFun r) = True"
| "can_be_held_weakly env (JError m) = True"
| "can_be_held_weakly env (JSym d) = symbol_weak_key env d"
| "can_be_held_weakly env v = False"

definition catch_import_error :: "env \<Rightarrow> js_value \<Rightarrow> js_value" where
  "catch_import_error env err = (if can_be_held_weakly env err then err else type_error)"

definition is_external :: "string \<Rightarrow> bool" where
  "is_external dep = (case dep of [] \<Rightarrow> True | c # cs \<Rightarrow> c \<noteq> CHR ''.'' \<and> c \<noteq> CHR ''/'')"

definition uninitialized_cycle_error :: js_value where
  "uninitialized_cycle_error =
     JError ''[vite] The dependency module is not yet fully initialized due to circular dependency. This is a bug in Vite SSR''"

definition ssrImport ::
  "loader \<Rightarrow> env \<Rightarrow> url \<Rightarrow> string \<Rightarrow> bool \<Rightarrow> loader_state \<Rightarrow> (settle \<times> loader_state) option" where
  "ssrImport L env url dep isDynamicImport s =
     (if is_external dep then
        Some (case nodeImport env url dep of
                Inl err \<Rightarrow> Rejected (catch_import_error env err)
              | Inr m \<Rightarrow> Resolved m, s)
      else if \<not> isDynamicImport then
        (let s1 = s\<lparr>pendingModuleDependencyGraph :=
                     addPendingModuleDependency url (unwrapId env dep)
                       (pendingModuleDependencyGraph s)\<rparr>
         in if checkModuleDependencyExists (pendingModuleDependencyGraph s1) (unwrapId env dep) url
            then
              (case ssrModule (urlToModuleMap s1 (unwrapId env dep)) of
                 None \<Rightarrow> Some (Rejected (catch_import_error env uninitialized_cycle_error), s1)
               | Some depSsrModule \<Rightarrow> Some (Resolved (JObj depSsrModule), s1))
            else L (unwrapId env dep) s1)
      else L (unwrapId env dep) s)"

text \<open>
  \<^verbatim>\<open>
  const ssrDynamicImport = (dep) => {
    if (dep[0] === '.') {
      dep = path.posix.resolve(path.dirname(url), dep)
    }
    return ssrImport(dep, { isDynamicImport: true })
  }
  \<close>
\<close>

definition dynamic_specifier :: "env \<Rightarrow> url \<Rightarrow> string \<Rightarrow> string" where
  "dynamic_specifier env url dep =
     (case dep of [] \<Rightarrow> dep
      | c # cs \<Rightarrow> if c = CHR ''.'' then resolve_relative env url dep else dep)"

definition ssrDynamicImport ::
  "loader \<Rightarrow> env \<Rightarrow> url \<Rightarrow> string \<Rightarrow> loader_state \<Rightarrow> (settle \<times> loader_state) option" where
  "ssrDynamicImport L env url dep s = ssrImport L env url (dynamic_specifier env url dep) True s"

section \<open>Instantiation\<close>

text \<open>
  Running the body of module \<open>url\<close> with its exports container \<open>exports\<close>. An export
  is defined as the transformed code defines it, enumerable and configurable. A
  \<^verbatim>\<open>TypeError\<close> of \<^verbatim>\<open>Object.defineProperty\<close> is thrown by the body.
\<close>

primrec run_body ::
  "body \<Rightarrow> loader \<Rightarrow> env \<Rightarrow> url \<Rightarrow> nat \<Rightarrow> loader_state \<Rightarrow> (completion \<times> loader_state) option" where
  "run_body Return L env url exports s = Some (Normal, s)"
| "run_body (Throw e) L env url exports s = Some (Abrupt e, s)"
| "run_body (Import dep k) L env url exports s =
     (case ssrImport L env url dep False s of
        None \<Rightarrow> None
      | Some (Resolved m, s') \<Rightarrow> run_body (k m) L env url exports s'
      | Some (Rejected e, s') \<Rightarrow> Some (Abrupt e, s')
      | Some (Pending, s') \<Rightarrow> Some (Stuck, s'))"
| "run_body (DynamicImport dep k) L env url exports s =
     (case ssrDynamicImport L env url dep s of
        None \<Rightarrow> None
      | Some (Resolved m, s') \<Rightarrow> run_body (k m) L env url exports s'
      | Some (Rejected e, s') \<Rightarrow> Some (Abrupt e, s')
      | Some (Pending, s') \<Rightarrow> Some (Stuck, s'))"
| "run_body (ExportAll sourceModule b) L env url exports s =
     (case ssrExportAll (js_heap s) exports sourceModule of
        (False, h') \<Rightarrow> Some (Abrupt type_error, s\<lparr>js_heap := h'\<rparr>)
      | (True, h') \<Rightarrow> run_body b L env url exports (s\<lparr>js_heap := h'\<rparr>))"
| "run_body (DefineExport key v b) L env url exports s =
     (case define_property (js_heap s) exports (StrKey key)
             \<lparr>slot = Data v, enumerable = True, configurable = True, writable = False\<rparr> of
        None \<Rightarrow> Some (Abrupt type_error, s)
      | Some h' \<Rightarrow> run_body b L env url exports (s\<lparr>js_heap := h'\<rparr>))"

text \<open>
  \<^verbatim>\<open>
  async function instantiateModule(url, server, context, fixStacktrace) {
    const mod = await moduleGraph.ensureEntryFromUrl(url, true)
    if (mod.ssrError) { throw mod.ssrError }
    if (mod.ssrModule) { return mod.ssrModule }
    const result = mod.ssrTransformResult || (await transformRequest(url, server, { ssr: true }))
    if (!result) { throw new Error(`failed to load module for ssr: ${url}`) }
    const ssrModule = { [Symbol.toStringTag]: 'Module' }
    Object.defineProperty(ssrModule, '__esModule', { value: true })
    mod.ssrModule = ssrModule
    ...
    try {
      const initModule = new AsyncFunction(...)
      await initModule(context.global, ssrModule, ssrImportMeta, ssrImport,
        ssrDynamicImport, ssrExportAll)
    } catch (e) {
      mod.ssrError = e
      const errorData = importErrors.get(e)
      if (e.stack && fixStacktrace) { ssrFixStacktrace(e, moduleGraph) }
      server.config.logger.error(...)
      throw e
    } finally {
      pendingModuleDependencyGraph.delete(url)
    }
    return Object.freeze(ssrModule)
  }
  \<close>
  The new container is the next object of the heap. In the \<^verbatim>\<open>catch\<close> block,
  \<^verbatim>\<open>e.stack\<close> of \<^verbatim>\<open>null\<close> or \<^verbatim>\<open>undefined\<close> throws a \<^verbatim>\<open>TypeError\<close> in place of \<open>e\<close>
  (\<open>rethrown\<close>). The import meta object, the resolve options, the source map and
  the logger do not bear on the loader's state and are left out.
\<close>

definition new_ssrModule :: js_object where
  "new_ssrModule =
     \<lparr>props =
        [(SymKey ''Symbol.toStringTag'',
          \<lparr>slot = Data (JStr ''Module''), enumerable = True, configurable = True, writable = True\<rparr>),
         (esModule_key,
          \<lparr>slot = Data (JBool True), enumerable = False, configurable = False, writable = False\<rparr>)],
      extensible = True\<rparr>"

definition transform_error :: "url \<Rightarrow> js_value" where
  "transform_error url = JError (''failed to load module for ssr: '' @ url)"

definition rethrown :: "js_value \<Rightarrow> js_value" where
  "rethrown e = (if nullish e then type_error else e)"

definition set_ssrError :: "url \<Rightarrow> js_value \<Rightarrow> loader_state \<Rightarrow> loader_state" where
  "set_ssrError url e s =
     s\<lparr>urlToModuleMap := (urlToModuleMap s)(url := (urlToModuleMap s url)\<lparr>ssrError := e\<rparr>)\<rparr>"

definition set_ssrModule :: "url \<Rightarrow> nat \<Rightarrow> loader_state \<Rightarrow> loader_state" where
  "set_ssrModule url r s =
     s\<lparr>urlToModuleMap := (urlToModuleMap s)(url := (urlToModuleMap s url)\<lparr>ssrModule := Some r\<rparr>)\<rparr>"

definition delete_pending_dependencies :: "url \<Rightarrow> loader_state \<Rightarrow> loader_state" where
  "delete_pending_dependencies url s =
     s\<lparr>pendingModuleDependencyGraph := AList.delete url (pendingModuleDependencyGraph s)\<rparr>"

text \<open>
  The steps of \<^verbatim>\<open>instantiateModule\<close>: the transform result (the cached one, or the
  answer of \<^verbatim>\<open>transformRequest\<close>); the state in which the body starts, with the new
  container attached to the record; and what happens once the body has run (the
  \<^verbatim>\<open>catch\<close> and \<^verbatim>\<open>finally\<close> blocks, or \<^verbatim>\<open>Object.freeze\<close>).
\<close>

definition transform_result :: "env \<Rightarrow> url \<Rightarrow> loader_state \<Rightarrow> js_value + body option" where
  "transform_result env url s =
     (case ssrTransformResult (urlToModuleMap s url) of
        Some b \<Rightarrow> Inr (Some b)
      | None \<Rightarrow> transformRequest env url)"

definition start_instantiation :: "url \<Rightarrow> loader_state \<Rightarrow> loader_state" where
  "start_instantiation url s =
     set_ssrModule url (length (js_heap s))
       (s\<lparr>js_heap := js_heap s @ [new_ssrModule], executed := executed s @ [url]\<rparr>)"

fun finish_instantiation :: "url \<Rightarrow> nat \<Rightarrow> completion \<times> loader_state \<Rightarrow> settle \<times> loader_state" where
  "finish_instantiation url r (Stuck, s') = (Pending, s')"
| "finish_instantiation url r (Abrupt e, s') =
     (Rejected (rethrown e), delete_pending_dependencies url (set_ssrError url e s'))"
| "finish_instantiation url r (Normal, s') =
     (Resolved (JObj r), (delete_pending_dependencies url s')\<lparr>js_heap := js_freeze (js_heap s') r\<rparr>)"

definition instantiateModule ::
  "loader \<Rightarrow> env \<Rightarrow> url \<Rightarrow> loader_state \<Rightarrow> (settle \<times> loader_state) option" where
  "instantiateModule L env url s =
     (if truthy (ssrError (urlToModuleMap s url)) then
        Some (Rejected (ssrError (urlToModuleMap s url)), s)
      else
        (case ssrModule (urlToModuleMap s url) of
           Some r \<Rightarrow> Some (Resolved (JObj r), s)
         | None \<Rightarrow>
             (case transform_result env url s of
                Inl e \<Rightarrow> Some (Rejected e, s)
              | Inr None \<Rightarrow> Some (Rejected (transform_error url), s)
              | Inr (Some result) \<Rightarrow>
                  map_option (finish_instantiation url (length (js_heap s)))
                    (run_body result L env url (length (js_heap s)) (start_instantiation url s)))))"

section \<open>The single-flight loader\<close>

text \<open>
  \<^verbatim>\<open>
  export async function ssrLoadModule(url, server, context, fixStacktrace) {
    url = unwrapId(url)
    const pending = pendingModules.get(url)
    if (pending) { return pending }
    const modulePromise = instantiateModule(url, server, context, fixStacktrace)
    pendingModules.set(url, modulePromise)
    modulePromise.catch(() => {}).finally(() => { pendingModules.delete(url) })
    return modulePromise
  }
  \<close>
  \<open>ssrLoadModule_sync\<close> is what a call does before it returns its promise: the promise,
  whether \<^verbatim>\<open>instantiateModule\<close> was called for it, and the state. \<open>on_settled\<close> is the
  \<^verbatim>\<open>finally\<close> callback.
\<close>

definition ssrLoadModule_sync :: "env \<Rightarrow> string \<Rightarrow> loader_state \<Rightarrow> nat \<times> bool \<times> loader_state" where
  "ssrLoadModule_sync env url s =
     (case pendingModules s (unwrapId env url) of
        Some pending \<Rightarrow> (pending, False, s)
      | None \<Rightarrow>
          (next_promise s, True,
           s\<lparr>pendingModules := (pendingModules s)(unwrapId env url \<mapsto> next_promise s),
             next_promise := Suc (next_promise s)\<rparr>))"

definition on_settled :: "url \<Rightarrow> loader_state \<Rightarrow> loader_state" where
  "on_settled url s = s\<lparr>pendingModules := (pendingModules s)(url := None)\<rparr>"

text \<open>
  Concurrent callers: a trace of calls of \<^verbatim>\<open>ssrLoadModule\<close> and of \<^verbatim>\<open>finally\<close>
  callbacks, in the order the event loop runs them. No other code of the file touches
  \<open>pendingModules\<close>. The log lists, for each call, the normalized url, the promise
  returned and whether the call started an instantiation.
\<close>

datatype event = Load string | Settled url

fun run_events ::
  "env \<Rightarrow> loader_state \<Rightarrow> event list \<Rightarrow> (url \<times> nat \<times> bool) list \<times> loader_state" where
  "run_events env s [] = ([], s)"
| "run_events env s (Load url # es) =
     (case ssrLoadModule_sync env url s of
        (p, started, s') \<Rightarrow>
          (case run_events env s' es of
             (log, s'') \<Rightarrow> ((unwrapId env url, p, started) # log, s'')))"
| "run_events env s (Settled url # es) = run_events env (on_settled url s) es"

definition promises_for :: "url \<Rightarrow> (url \<times> nat \<times> bool) list \<Rightarrow> nat list" where
  "promises_for url log = map (\<lambda>(u, p, started). p) (filter (\<lambda>(u, p, started). u = url) log)"

definition instantiations_for :: "url \<Rightarrow> (url \<times> nat \<times> bool) list \<Rightarrow> nat" where
  "instantiations_for url log = length (filter (\<lambda>(u, p, started). u = url \<and> started) log)"

text \<open>
  A load whose imports are all awaited, run to its end: a caller that gets the promise
  of an instantiation in flight waits for it forever, since that instantiation waits
  for the caller. The first argument of \<open>ssrLoadModule\<close> bounds the depth of nested
  loads; \<open>None\<close> is the bound reached.
\<close>

definition ssrLoadModule_step :: "loader \<Rightarrow> env \<Rightarrow> string \<Rightarrow> loader_state \<Rightarrow> (settle \<times> loader_state) option" where
  "ssrLoadModule_step L env url s =
     (case ssrLoadModule_sync env url s of
        (p, False, s1) \<Rightarrow> Some (Pending, s1)
      | (p, True, s1) \<Rightarrow>
          (case instantiateModule L env (unwrapId env url) s1 of
             None \<Rightarrow> None
           | Some (Pending, s2) \<Rightarrow> Some (Pending, s2)
           | Some (Resolved m, s2) \<Rightarrow> Some (Resolved m, on_settled (unwrapId env url) s2)
           | Some (Rejected e, s2) \<Rightarrow> Some (Rejected e, on_settled (unwrapId env url) s2)))"

primrec ssrLoadModule :: "nat \<Rightarrow> env \<Rightarrow> string \<Rightarrow> loader_state \<Rightarrow> (settle \<times> loader_state) option" where
  "ssrLoadModule 0 env url s = None"
| "ssrLoadModule (Suc n) env url s = ssrLoadModule_step (ssrLoadModule n env) env url s"

definition loads_for :: "env \<Rightarrow> url \<Rightarrow> event list \<Rightarrow> nat" where
  "loads_for env url es =
     length (filter (\<lambda>e. case e of Load u \<Rightarrow> unwrapId env u = url | Settled u \<Rightarrow> False) es)"

section \<open>Example modules\<close>

text \<open>
  Modelled from the spec: \<^verbatim>\<open>unwrapId\<close> "strips internal prefixing conventions"; the
  example environment strips the prefix \<^verbatim>\<open>/@id/\<close>.
\<close>

definition strip_id_prefix :: "string \<Rightarrow> string" where
  "strip_id_prefix u = (if take 5 u = ''/@id/'' then drop 5 u else u)"

text \<open>
  Two modules that import each other, a module that throws the number \<^verbatim>\<open>0\<close> and one
  that throws an \<^verbatim>\<open>Error\<close>; every other url has no transform result. Of the external
  specifiers, the \<^verbatim>\<open>data:\<close> module \<^verbatim>\<open>throw 1\<close> rejects with the number \<^verbatim>\<open>1\<close> and every
  other one is not found.
\<close>

definition ex_transform :: "url \<Rightarrow> js_value + body option" where
  "ex_transform u =
     (if u = ''/a.js'' then Inr (Some (Import ''/b.js'' (\<lambda>m. DefineExport ''x'' (JNum 1) Return)))
      else if u = ''/b.js'' then Inr (Some (Import ''/a.js'' (\<lambda>m. DefineExport ''y'' (JNum 2) Return)))
      else if u = ''/falsy.js'' then Inr (Some (Throw (JNum 0)))
      else if u = ''/throws.js'' then Inr (Some (Throw (JError ''boom'')))
      else Inr None)"

definition ex_env :: env where
  "ex_env =
     \<lparr>unwrapId = strip_id_prefix, transformRequest = ex_transform,
      nodeImport = (\<lambda>importer dep.
        if dep = ''data:text/javascript,throw 1'' then Inl (JNum 1)
        else Inl (JError ''ERR_MODULE_NOT_FOUND'')),
      resolve_relative = (\<lambda>u dep. dep),
      symbol_weak_key = (\<lambda>d. False)\<rparr>"

definition ex_events :: "event list" where
  "ex_events = [Load ''/@id//a.js'', Load ''/b.js'', Load ''/a.js'', Settled ''/b.js'', Load ''/a.js'']"

text \<open>The state a load leaves behind (the state it started in when the bound is reached).\<close>

definition state_after :: "(settle \<times> loader_state) option \<Rightarrow> loader_state \<Rightarrow> loader_state" where
  "state_after r s = (case r of Some (res, s') \<Rightarrow> s' | None \<Rightarrow> s)"

definition outcome :: "(settle \<times> loader_state) option \<Rightarrow> settle option" where
  "outcome r = map_option fst r"

text \<open>
  A heap all of whose properties are data properties (as in a module loaded natively,
  to which \<^verbatim>\<open>ssrExportAll\<close> has added no getter): every read returns.
\<close>

definition data_only :: "heap \<Rightarrow> bool" where
  "data_only h =
     list_all (\<lambda>obj. list_all (\<lambda>(k, p). case slot p of Data v \<Rightarrow> True | Getter src k' \<Rightarrow> False)
                             (props obj)) h"

text \<open>
  Example heaps. \<open>ex_legacy_heap\<close>: object 0 is \<^verbatim>\<open>{ x: null, default: <object 1> }\<close>,
  object 1 is \<^verbatim>\<open>{ x: 1, y: 2 }\<close>, object 2 is \<^verbatim>\<open>{ default: 'abc' }\<close>. \<open>ex_frozen_heap\<close>:
  the same after \<^verbatim>\<open>Object.freeze\<close> of object 0. \<open>ex_nested_heap\<close>: object 0 is
  \<^verbatim>\<open>{ default: <object 1>, q: 4 }\<close>, object 1 is \<^verbatim>\<open>{ __esModule: true, z: 5 }\<close>.
  \<open>ex_builtins\<close>: the objects inherit nothing, and a string has its \<^verbatim>\<open>length\<close>.
  \<open>ex_reexport_heap\<close>: object 0 is a new exports
  container (module A), object 1 is module B's exports \<^verbatim>\<open>{ a: 1, b: 2 }\<close>.
\<close>

definition data_property :: "js_value \<Rightarrow> property" where
  "data_property v = \<lparr>slot = Data v, enumerable = True, configurable = True, writable = True\<rparr>"

definition ex_legacy_heap :: heap where
  "ex_legacy_heap =
     [\<lparr>props = [(StrKey ''x'', data_property JNull), (default_key, data_property (JObj 1))],
       extensible = True\<rparr>,
      \<lparr>props = [(StrKey ''x'', data_property (JNum 1)), (StrKey ''y'', data_property (JNum 2))],
       extensible = True\<rparr>,
      \<lparr>props = [(default_key, data_property (JStr ''abc''))], extensible = True\<rparr>]"

definition ex_frozen_heap :: heap where
  "ex_frozen_heap = js_freeze ex_legacy_heap 0"

definition ex_nested_heap :: heap where
  "ex_nested_heap =
     [\<lparr>props = [(default_key, data_property (JObj 1)), (StrKey ''q'', data_property (JNum 4))],
       extensible = True\<rparr>,
      \<lparr>props = [(esModule_key, data_property (JBool True)), (StrKey ''z'', data_property (JNum 5))],
       extensible = True\<rparr>]"

definition ex_builtins :: builtins where
  "ex_builtins =
     \<lparr>inherited = (\<lambda>r k. None),
      builtin_property = (\<lambda>v k.
        case v of
          JStr str \<Rightarrow> if k = StrKey ''length'' then Some (JNum (int (length str))) else None
        | _ \<Rightarrow> None),
      object_prototype = (\<lambda>k. None)\<rparr>"

definition ex_reexport_heap :: heap where
  "ex_reexport_heap =
     [new_ssrModule,
      \<lparr>props = [(StrKey ''a'', data_property (JNum 1)), (StrKey ''b'', data_property (JNum 2))],
       extensible = True\<rparr>]"

text \<open>
  A state in the middle of instantiating \<^verbatim>\<open>/a.js\<close>: its container is attached, and it
  has statically imported \<^verbatim>\<open>/b.js\<close>, which is now running.
\<close>

definition ex_cycle_state :: loader_state where
  "ex_cycle_state =
     \<lparr>urlToModuleMap = (\<lambda>u. blank_node)(''/a.js'' := blank_node\<lparr>ssrModule := Some 0\<rparr>,
                                           ''/b.js'' := blank_node\<lparr>ssrModule := Some 1\<rparr>),
      pendingModules = [''/a.js'' \<mapsto> 0, ''/b.js'' \<mapsto> 1], next_promise = 2,
      pendingModuleDependencyGraph = [(''/a.js'', [''/b.js''])],
      js_heap = [new_ssrModule, new_ssrModule], executed = [''/a.js'', ''/b.js'']\<rparr>"

text \<open>A loader that never answers, to show where \<^verbatim>\<open>ssrLoadModule\<close> is not called.\<close>

definition no_loader :: loader where
  "no_loader u s = None"

text \<open>A loader whose promise stays pending and which leaves the state as it is.\<close>

definition pending_loader :: loader where
  "pending_loader u s = Some (Pending, s)"

text \<open>
  \<open>ex_reexported\<close>: the heap after module A has re-exported all of module B;
  \<open>ex_mutated\<close>: that heap after B's \<^verbatim>\<open>a\<close> has changed to \<^verbatim>\<open>5\<close>.
\<close>

definition ex_reexported :: heap where
  "ex_reexported = snd (ssrExportAll ex_reexport_heap 0 1)"

definition ex_mutated :: heap where
  "ex_mutated =
     ex_reexported
       [1 := \<lparr>props = [(StrKey ''a'', data_property (JNum 5)), (StrKey ''b'', data_property (JNum 2))],
              extensible = True\<rparr>]"

text \<open>
  The exports objects attached to the records in \<open>s\<close> are still attached, each to its
  record, in \<open>s'\<close>.
\<close>

definition exports_stable :: "loader_state \<Rightarrow> loader_state \<Rightarrow> bool" where
  "exports_stable s s' =
     (\<forall>u r. ssrModule (urlToModuleMap s u) = Some r \<longrightarrow> ssrModule (urlToModuleMap s' u) = Some r)"

definition stable_loader :: "loader \<Rightarrow> bool" where
  "stable_loader L = (\<forall>u s res s'. L u s = Some (res, s') \<longrightarrow> exports_stable s s')"


text \<open>The state after the load of \<^verbatim>\<open>/falsy.js\<close> has failed.\<close>

definition ex_failed :: loader_state where
  "ex_failed = state_after (ssrLoadModule 1 ex_env ''/falsy.js'' init_state) init_state"

section \<open>Finalized exports\<close>

text \<open>
  A body all of whose \<^verbatim>\<open>throw\<close> statements throw a truthy value, and an environment
  in which every body is such and every rejection of \<^verbatim>\<open>transformRequest\<close> carries
  a truthy value. (A rejection of \<^verbatim>\<open>nodeImport\<close> leaves \<^verbatim>\<open>ssrImport\<close> truthy in any
  case: a falsy value is no key of \<^verbatim>\<open>importErrors\<close>.)
\<close>

primrec throws_truthy :: "body \<Rightarrow> bool" where
  "throws_truthy Return = True"
| "throws_truthy (Throw e) = truthy e"
| "throws_truthy (Import dep k) = (\<forall>m. throws_truthy (k m))"
| "throws_truthy (DynamicImport dep k) = (\<forall>m. throws_truthy (k m))"
| "throws_truthy (ExportAll sourceModule b) = throws_truthy b"
| "throws_truthy (DefineExport key v b) = throws_truthy b"

definition truthy_env :: "env \<Rightarrow> bool" where
  "truthy_env env =
     ((\<forall>u e. transformRequest env u = Inl e \<longrightarrow> truthy e) \<and>
      (\<forall>u b. transformRequest env u = Inr (Some b) \<longrightarrow> throws_truthy b))"

text \<open>
  The record of \<open>u\<close> is settled when its exports object, if it has one, is frozen or
  comes with a stored error that \<^verbatim>\<open>instantiateModule\<close> will rethrow. A state is
  finalized when every record with no load in flight is settled (and every attached
  object exists, and every cached transform result throws only truthy values).
\<close>

definition settled_record :: "loader_state \<Rightarrow> url \<Rightarrow> bool" where
  "settled_record s u =
     (\<forall>r. ssrModule (urlToModuleMap s u) = Some r \<longrightarrow>
          truthy (ssrError (urlToModuleMap s u)) \<or> frozen (js_heap s) r)"

definition finalized :: "loader_state \<Rightarrow> bool" where
  "finalized s =
     (\<forall>u. (pendingModules s u = None \<longrightarrow> settled_record s u) \<and>
          (\<forall>r. ssrModule (urlToModuleMap s u) = Some r \<longrightarrow> r < length (js_heap s)) \<and>
          (\<forall>b. ssrTransformResult (urlToModuleMap s u) = Some b \<longrightarrow> throws_truthy b))"

definition finalizing_loader :: "loader \<Rightarrow> bool" where
  "finalizing_loader L =
     (\<forall>u s res s'. finalized s \<and> L u s = Some (res, s') \<longrightarrow>
        finalized s' \<and> (\<forall>e. res = Rejected e \<longrightarrow> truthy e))"

text \<open>A change of the heap that removes no object and leaves frozen objects frozen.\<close>

definition heap_step :: "heap \<Rightarrow> heap \<Rightarrow> bool" where
  "heap_step h h' = (length h \<le> length h' \<and> (\<forall>r. frozen h r \<longrightarrow> frozen h' r))"

text \<open>A loader that, when its promise settles, has put the pending table back as it was.\<close>

definition restoring_loader :: "loader \<Rightarrow> bool" where
  "restoring_loader L =
     (\<forall>u s res s'. L u s = Some (res, s') \<and> res \<noteq> Pending \<longrightarrow>
        pendingModules s' = pendingModules s)"

text \<open>
  A change of the heap that keeps every object there is as it is, and a loader whose
  loads change the heap so: they only add objects and work on the ones they add.
\<close>

definition heap_frame :: "heap \<Rightarrow> heap \<Rightarrow> bool" where
  "heap_frame h h' = (length h \<le> length h' \<and> (\<forall>r. r < length h \<longrightarrow> h' ! r = h ! r))"

definition framing_loader :: "loader \<Rightarrow> bool" where
  "framing_loader L =
     (\<forall>u s res s'. L u s = Some (res, s') \<longrightarrow> heap_frame (js_heap s) (js_heap s'))"

text \<open>
  What a body does to the heap: its container stays open, no object is removed and
  the objects other than the container stay as they are.
\<close>

definition body_frame :: "nat \<Rightarrow> heap \<Rightarrow> heap \<Rightarrow> bool" where
  "body_frame ex h h' =
     (open_container h' ex \<and> length h \<le> length h' \<and>
      (\<forall>r. r < length h \<and> r \<noteq> ex \<longrightarrow> h' ! r = h ! r))"

section \<open>Correctness of the cycle query\<close>

lemma edges_step: "map_of g a = Some deps \<Longrightarrow> b \<in> set deps \<Longrightarrow> (a, b) \<in> edges g"
  by (auto simp: edges_def)

lemma edges_none: "map_of g a = None \<Longrightarrow> (a, b) \<notin> edges g"
  by (simp add: edges_def)

text \<open>Soundness: an answer \<open>True\<close> comes from a path that starts on the stack.\<close>

lemma checkLoop_sound:
  "checkLoop g t visited stack \<Longrightarrow> \<exists>s \<in> set stack. (s, t) \<in> (edges g)\<^sup>*"
proof (induction g t visited stack rule: checkLoop.induct)
  case (1 g targetUrl visited)
  then show ?case by simp
next
  case (2 g targetUrl visited currentUrl stack)
  show ?case
  proof (cases "currentUrl = targetUrl")
    case True
    then show ?thesis by auto
  next
    case neq: False
    show ?thesis
    proof (cases "currentUrl \<in> visited")
      case True
      with neq 2 show ?thesis by auto
    next
      case unvisited: False
      show ?thesis
      proof (cases "map_of g currentUrl")
        case None
        with neq unvisited 2 show ?thesis by auto
      next
        case (Some dependencies)
        with neq unvisited 2 obtain s where
          s: "s \<in> set (rev (filter (\<lambda>d. d \<notin> insert currentUrl visited) dependencies) @ stack)"
          and st: "(s, targetUrl) \<in> (edges g)\<^sup>*"
          by auto
        show ?thesis
        proof (cases "s \<in> set stack")
          case True
          with st show ?thesis by auto
        next
          case False
          with s have "s \<in> set dependencies" by auto
          with Some have "(currentUrl, s) \<in> edges g" by (rule edges_step)
          from this st have "(currentUrl, targetUrl) \<in> (edges g)\<^sup>*"
            by (rule converse_rtrancl_into_rtrancl)
          then show ?thesis by auto
        qed
      qed
    qed
  qed
qed

text \<open>
  Completeness rests on the invariant \<open>closed_under\<close> of the loop: a path from a
  visited node to a node that is not visited passes through the stack.
\<close>

lemma path_leaves_through_stack:
  assumes "(a, t) \<in> (edges g)\<^sup>*" and "a \<in> visited" and "t \<notin> visited"
    and "closed_under g visited stack"
  shows "\<exists>s \<in> set stack. (s, t) \<in> (edges g)\<^sup>*"
  using assms
proof (induction rule: converse_rtrancl_induct)
  case base
  then show ?case by simp
next
  case (step a b)
  show ?case
  proof (cases "b \<in> visited")
    case True
    with step show ?thesis by simp
  next
    case False
    with step(1,4,6) have "b \<in> set stack"
      by (auto simp: closed_under_def)
    with step(2) show ?thesis by auto
  qed
qed

lemma closed_under_pop:
  "closed_under g visited (c # stack) \<Longrightarrow> c \<in> visited \<Longrightarrow> closed_under g visited stack"
  by (auto simp: closed_under_def)

lemma closed_under_leaf:
  "closed_under g visited (c # stack) \<Longrightarrow> map_of g c = None \<Longrightarrow>
   closed_under g (insert c visited) stack"
  unfolding closed_under_def using edges_none [of g c] by auto

lemma closed_under_expand:
  assumes "closed_under g visited (c # stack)" and "map_of g c = Some deps"
  shows "closed_under g (insert c visited)
           (rev (filter (\<lambda>d. d \<notin> insert c visited) deps) @ stack)"
  unfolding closed_under_def
proof (intro allI impI, elim conjE)
  fix a b
  assume a: "a \<in> insert c visited" and ab: "(a, b) \<in> edges g"
  show "b \<in> insert c visited \<or>
        b \<in> set (rev (filter (\<lambda>d. d \<notin> insert c visited) deps) @ stack)"
  proof (cases "a = c")
    case True
    with ab assms(2) have "b \<in> set deps" by (auto simp: edges_def)
    then show ?thesis by auto
  next
    case False
    with a have "a \<in> visited" by simp
    with ab assms(1) have "b \<in> visited \<or> b \<in> set (c # stack)"
      by (auto simp: closed_under_def)
    then show ?thesis by auto
  qed
qed

lemma checkLoop_complete:
  "\<exists>s \<in> set stack. (s, t) \<in> (edges g)\<^sup>* \<Longrightarrow> t \<notin> visited \<Longrightarrow>
   closed_under g visited stack \<Longrightarrow> checkLoop g t visited stack"
proof (induction g t visited stack rule: checkLoop.induct)
  case (1 g targetUrl visited)
  then show ?case by simp
next
  case (2 g targetUrl visited currentUrl stack)
  show ?case
  proof (cases "currentUrl = targetUrl")
    case True
    then show ?thesis by simp
  next
    case neq: False
    from "2.prems"(1) obtain s where s: "s \<in> set (currentUrl # stack)"
      and st: "(s, targetUrl) \<in> (edges g)\<^sup>*" by blast
    show ?thesis
    proof (cases "currentUrl \<in> visited")
      case True
      have cl: "closed_under g visited stack"
        using "2.prems"(3) True by (rule closed_under_pop)
      have "\<exists>s \<in> set stack. (s, targetUrl) \<in> (edges g)\<^sup>*"
      proof (cases "s = currentUrl")
        case True
        with st \<open>currentUrl \<in> visited\<close> "2.prems"(2) cl show ?thesis
          by (auto intro: path_leaves_through_stack)
      next
        case False
        with s st show ?thesis by auto
      qed
      with True neq cl "2.prems"(2) "2.IH"(3) show ?thesis by simp
    next
      case unvisited: False
      have t': "targetUrl \<notin> insert currentUrl visited"
        using neq "2.prems"(2) by auto
      show ?thesis
      proof (cases "map_of g currentUrl")
        case None
        have cl: "closed_under g (insert currentUrl visited) stack"
          using "2.prems"(3) None by (rule closed_under_leaf)
        have "\<exists>s \<in> set stack. (s, targetUrl) \<in> (edges g)\<^sup>*"
        proof (cases "s = currentUrl")
          case True
          with st t' cl show ?thesis
            by (auto intro: path_leaves_through_stack)
        next
          case False
          with s st show ?thesis by auto
        qed
        with None neq unvisited cl t' "2.IH"(1) show ?thesis by simp
      next
        case (Some deps)
        let ?stack = "rev (filter (\<lambda>d. d \<notin> insert currentUrl visited) deps) @ stack"
        have cl: "closed_under g (insert currentUrl visited) ?stack"
          using "2.prems"(3) Some by (rule closed_under_expand)
        have "\<exists>s \<in> set ?stack. (s, targetUrl) \<in> (edges g)\<^sup>*"
        proof (cases "s = currentUrl")
          case True
          with st have "(currentUrl, targetUrl) \<in> (edges g)\<^sup>*" by simp
          moreover have "currentUrl \<in> insert currentUrl visited" by simp
          ultimately show ?thesis
            using t' cl by (rule path_leaves_through_stack)
        next
          case False
          with s st show ?thesis by auto
        qed
        with Some neq unvisited cl t' "2.IH"(2) show ?thesis by simp
      qed
    qed
  qed
qed

text \<open>
  C3. The cycle query answers \<open>True\<close> exactly when the target is reachable from the
  origin along zero or more registered edges, on every graph (cyclic ones included);
  in particular it answers \<open>True\<close> when the two urls are equal. The search is a total
  function: its termination is proved above for every graph.
\<close>

theorem checkModuleDependencyExists_reachable:
  "checkModuleDependencyExists g originUrl targetUrl = ((originUrl, targetUrl) \<in> (edges g)\<^sup>*)
   \<and> checkModuleDependencyExists g targetUrl targetUrl"
proof -
  have sound: "(a, t) \<in> (edges g)\<^sup>*" if "checkLoop g t {} [a]" for a t
    using checkLoop_sound [OF that] by simp
  have complete: "checkLoop g t {} [a]" if "(a, t) \<in> (edges g)\<^sup>*" for a t
    by (rule checkLoop_complete) (use that in \<open>simp_all add: closed_under_def\<close>)
  show ?thesis
    unfolding checkModuleDependencyExists_def using sound complete by blast
qed

section \<open>The single-flight loader: concurrent calls\<close>

lemma sync_pending:
  "pendingModules s (unwrapId env x) = Some p \<Longrightarrow> ssrLoadModule_sync env x s = (p, False, s)"
  by (simp add: ssrLoadModule_sync_def)

lemma sync_other_key:
  "unwrapId env x \<noteq> k \<Longrightarrow> ssrLoadModule_sync env x s = (p, b, s') \<Longrightarrow>
   pendingModules s' k = pendingModules s k"
  by (auto simp: ssrLoadModule_sync_def split: option.splits)

lemma sync_start:
  "pendingModules s (unwrapId env x) = None \<Longrightarrow> ssrLoadModule_sync env x s = (p, b, s') \<Longrightarrow>
   b \<and> pendingModules s' (unwrapId env x) = Some p"
  by (auto simp: ssrLoadModule_sync_def)

lemma promises_for_Cons:
  "promises_for k ((u, p, b) # log) = (if u = k then p # promises_for k log else promises_for k log)"
  by (simp add: promises_for_def)

lemma instantiations_for_Cons:
  "instantiations_for k ((u, p, b) # log) =
     (if u = k \<and> b then Suc (instantiations_for k log) else instantiations_for k log)"
  by (simp add: instantiations_for_def)

lemma loads_for_Cons:
  "loads_for env k (Load u # es) = (if unwrapId env u = k then Suc (loads_for env k es) else loads_for env k es)"
  "loads_for env k (Settled u # es) = loads_for env k es"
  "loads_for env k [] = 0"
  by (simp_all add: loads_for_def)

lemma run_events_joined:
  "pendingModules s k = Some p \<Longrightarrow> Settled k \<notin> set es \<Longrightarrow> run_events env s es = (log, s') \<Longrightarrow>
   promises_for k log = replicate (loads_for env k es) p \<and> instantiations_for k log = 0"
proof (induction es arbitrary: s log s')
  case Nil
  then show ?case by (simp add: promises_for_def instantiations_for_def loads_for_Cons)
next
  case (Cons e es)
  show ?case
  proof (cases e)
    case (Load u)
    obtain q b s1 where sync: "ssrLoadModule_sync env u s = (q, b, s1)"
      by (cases "ssrLoadModule_sync env u s") auto
    obtain log1 s2 where rest: "run_events env s1 es = (log1, s2)"
      by (cases "run_events env s1 es") auto
    from Cons.prems(3) Load sync rest have log: "log = (unwrapId env u, q, b) # log1"
      by simp
    show ?thesis
    proof (cases "unwrapId env u = k")
      case True
      with Cons.prems(1) sync have "q = p" "b = False" "s1 = s"
        by (simp_all add: ssrLoadModule_sync_def)
      moreover from this Cons.IH [OF Cons.prems(1) _ rest [unfolded \<open>s1 = s\<close>]] Cons.prems(2)
      have "promises_for k log1 = replicate (loads_for env k es) p \<and> instantiations_for k log1 = 0"
        by simp
      ultimately show ?thesis
        using True Load log by (simp add: promises_for_Cons instantiations_for_Cons loads_for_Cons)
    next
      case False
      from False sync have "pendingModules s1 k = pendingModules s k" by (rule sync_other_key)
      with Cons.prems(1) have "pendingModules s1 k = Some p" by simp
      from Cons.IH [OF this _ rest] Cons.prems(2)
      have "promises_for k log1 = replicate (loads_for env k es) p \<and> instantiations_for k log1 = 0"
        by simp
      then show ?thesis
        using False Load log by (simp add: promises_for_Cons instantiations_for_Cons loads_for_Cons)
    qed
  next
    case (Settled u)
    with Cons.prems(2) have "u \<noteq> k" by auto
    with Cons.prems(1) have "pendingModules (on_settled u s) k = Some p"
      by (simp add: on_settled_def)
    from Cons.IH [OF this] Cons.prems(2,3) Settled show ?thesis
      by (simp add: loads_for_Cons)
  qed
qed

lemma run_events_fresh:
  "pendingModules s k = None \<Longrightarrow> Settled k \<notin> set es \<Longrightarrow> run_events env s es = (log, s') \<Longrightarrow>
   (\<exists>p. promises_for k log = replicate (loads_for env k es) p) \<and>
   instantiations_for k log = (if loads_for env k es = 0 then 0 else 1)"
proof (induction es arbitrary: s log s')
  case Nil
  then show ?case by (simp add: promises_for_def instantiations_for_def loads_for_Cons)
next
  case (Cons e es)
  show ?case
  proof (cases e)
    case (Load u)
    obtain q b s1 where sync: "ssrLoadModule_sync env u s = (q, b, s1)"
      by (cases "ssrLoadModule_sync env u s") auto
    obtain log1 s2 where rest: "run_events env s1 es = (log1, s2)"
      by (cases "run_events env s1 es") auto
    from Cons.prems(3) Load sync rest have log: "log = (unwrapId env u, q, b) # log1"
      by simp
    show ?thesis
    proof (cases "unwrapId env u = k")
      case True
      with Cons.prems(1) sync have "b \<and> pendingModules s1 k = Some q"
        using sync_start [of s env u q b s1] by simp
      moreover from this run_events_joined [OF _ _ rest, of k q] Cons.prems(2)
      have "promises_for k log1 = replicate (loads_for env k es) q \<and> instantiations_for k log1 = 0"
        by simp
      ultimately show ?thesis
        using True Load log by (auto simp add: promises_for_Cons instantiations_for_Cons loads_for_Cons)
    next
      case False
      from False sync have "pendingModules s1 k = pendingModules s k" by (rule sync_other_key)
      with Cons.prems(1) have "pendingModules s1 k = None" by simp
      from Cons.IH [OF this _ rest] Cons.prems(2)
      show ?thesis
        using False Load log by (simp add: promises_for_Cons instantiations_for_Cons loads_for_Cons)
    qed
  next
    case (Settled u)
    with Cons.prems(1) have "pendingModules (on_settled u s) k = None"
      by (simp add: on_settled_def)
    from Cons.IH [OF this] Cons.prems(2,3) Settled show ?thesis
      by (simp add: loads_for_Cons)
  qed
qed

text \<open>
  C1. Single flight. A call of \<^verbatim>\<open>ssrLoadModule\<close> that finds a pending entry for the
  normalized url returns that promise and starts nothing. In a trace of calls and
  \<^verbatim>\<open>finally\<close> callbacks in which the promise of url \<open>k\<close> does not settle, all \<open>N \<ge> 2\<close>
  calls for spellings of \<open>k\<close> get one and the same promise (hence its one result or
  error), and exactly one of them starts an instantiation when none was in flight at
  the start (none when one was).
\<close>

theorem ssrLoadModule_single_flight:
  assumes "Settled k \<notin> set es" and "run_events env s es = (log, s')"
  shows "(\<forall>x p. pendingModules s (unwrapId env x) = Some p \<longrightarrow>
            ssrLoadModule_sync env x s = (p, False, s)) \<and>
         (pendingModules s k = None \<and> 2 \<le> loads_for env k es \<longrightarrow>
            instantiations_for k log = 1 \<and>
            (\<exists>p. promises_for k log = replicate (loads_for env k es) p)) \<and>
         (\<forall>p. pendingModules s k = Some p \<longrightarrow>
            instantiations_for k log = 0 \<and>
            promises_for k log = replicate (loads_for env k es) p)"
proof (intro conjI allI impI)
  fix x p
  assume "pendingModules s (unwrapId env x) = Some p"
  then show "ssrLoadModule_sync env x s = (p, False, s)" by (rule sync_pending)
next
  assume a: "pendingModules s k = None \<and> 2 \<le> loads_for env k es"
  with run_events_fresh [OF _ assms] show "instantiations_for k log = 1" by auto
  from a run_events_fresh [OF _ assms]
  show "\<exists>p. promises_for k log = replicate (loads_for env k es) p" by auto
next
  fix p
  assume "pendingModules s k = Some p"
  from run_events_joined [OF this assms]
  show "instantiations_for k log = 0" "promises_for k log = replicate (loads_for env k es) p"
    by auto
qed

theorem ssrLoadModule_single_flight_witness:
  "Settled ''/a.js'' \<notin> set ex_events \<and>
   pendingModules init_state ''/a.js'' = None \<and>
   loads_for ex_env ''/a.js'' ex_events = 3 \<and>
   instantiations_for ''/a.js'' (fst (run_events ex_env init_state ex_events)) = 1 \<and>
   promises_for ''/a.js'' (fst (run_events ex_env init_state ex_events)) = [0, 0, 0]"
  using ssrLoadModule_single_flight [of "''/a.js''" ex_events ex_env init_state
      "fst (run_events ex_env init_state ex_events)" "snd (run_events ex_env init_state ex_events)"]
  by (simp add: ex_events_def ex_env_def init_state_def loads_for_def strip_id_prefix_def
      ssrLoadModule_sync_def on_settled_def promises_for_def instantiations_for_def)

section \<open>The import functions\<close>



text \<open>
  The error of the uninitialized cycle is an object, which \<^verbatim>\<open>importErrors\<close> takes as a
  key; and whatever an import rejects with after its \<^verbatim>\<open>catch\<close> block is truthy when
  it is not the value that was caught.
\<close>

lemma catch_uninitialized_cycle_error [simp]:
  "catch_import_error env uninitialized_cycle_error = uninitialized_cycle_error"
  by (simp add: catch_import_error_def uninitialized_cycle_error_def)

lemma truthy_catch_import_error [simp]: "truthy (catch_import_error env err)"
  by (cases err) (simp_all add: catch_import_error_def type_error_def)



text \<open>
  C7. A dynamic import never touches the edge set and never asks the cycle query. An
  external specifier goes to \<^verbatim>\<open>nodeImport\<close> and leaves the state as it is: the import
  resolves as \<^verbatim>\<open>nodeImport\<close> does, and rejects with the value of \<^verbatim>\<open>nodeImport\<close>'s
  rejection when \<^verbatim>\<open>importErrors\<close> takes that value as a key and with the \<^verbatim>\<open>TypeError\<close>
  of \<^verbatim>\<open>importErrors.set\<close> when it does not. Any other specifier is exactly a call
  of the single-flight loader in the unchanged state, whatever static cycle is in
  progress.
\<close>

theorem ssrDynamicImport_no_edge:
  "ssrDynamicImport L env url dep s =
     (if is_external (dynamic_specifier env url dep)
      then Some (case nodeImport env url (dynamic_specifier env url dep) of
                   Inl err \<Rightarrow> Rejected (if can_be_held_weakly env err then err else type_error)
                 | Inr m \<Rightarrow> Resolved m, s)
      else L (unwrapId env (dynamic_specifier env url dep)) s)"
  by (simp add: ssrDynamicImport_def ssrImport_def catch_import_error_def split: sum.splits)

theorem ssrDynamicImport_no_edge_witness:
  "checkModuleDependencyExists
     (addPendingModuleDependency ''/b.js'' ''/a.js'' (pendingModuleDependencyGraph ex_cycle_state))
     ''/a.js'' ''/b.js'' \<and>
   ssrDynamicImport pending_loader ex_env ''/b.js'' ''/a.js'' ex_cycle_state
     = pending_loader ''/a.js'' ex_cycle_state \<and>
   pendingModuleDependencyGraph
     (state_after (ssrDynamicImport pending_loader ex_env ''/b.js'' ''/a.js'' ex_cycle_state)
        init_state)
     = [(''/a.js'', [''/b.js''])] \<and>
   is_external ''data:text/javascript,throw 1'' \<and>
   ssrDynamicImport pending_loader ex_env ''/b.js'' ''data:text/javascript,throw 1'' ex_cycle_state
     = Some (Rejected type_error, ex_cycle_state) \<and>
   is_external ''missing'' \<and>
   ssrDynamicImport pending_loader ex_env ''/b.js'' ''missing'' ex_cycle_state
     = Some (Rejected (JError ''ERR_MODULE_NOT_FOUND''), ex_cycle_state)"
  using ssrDynamicImport_no_edge [of pending_loader ex_env "''/b.js''" "''/a.js''" ex_cycle_state]
    ssrDynamicImport_no_edge [of pending_loader ex_env "''/b.js''"
      "''data:text/javascript,throw 1''" ex_cycle_state]
    ssrDynamicImport_no_edge [of pending_loader ex_env "''/b.js''" "''missing''" ex_cycle_state]
  by (simp add: is_external_def ex_env_def strip_id_prefix_def ex_cycle_state_def
      dynamic_specifier_def addPendingModuleDependency_def checkModuleDependencyExists_def
      pending_loader_def state_after_def)

section \<open>Instantiation: failures\<close>

lemma on_settled_sync:
  "pendingModules s k = None \<Longrightarrow>
   on_settled k (s\<lparr>pendingModules := (pendingModules s)(k \<mapsto> p), next_promise := q\<rparr>) =
   s\<lparr>next_promise := q\<rparr>"
  by (simp add: on_settled_def fun_upd_idem)

text \<open>
  C6. When a module that has neither a cached error nor an exports object gets no
  transform result, \<^verbatim>\<open>instantiateModule\<close> rejects at once and the state is the one it
  started in: no field of the record is set and no body has run. A load through
  \<^verbatim>\<open>ssrLoadModule\<close> leaves the state unchanged but for the promise counter. Nothing
  is cached: a later instantiation asks the transform again and fails with what the
  transform fails with then.
\<close>

theorem transform_failure_atomic:
  assumes "\<not> truthy (ssrError (urlToModuleMap s url))"
    and "ssrModule (urlToModuleMap s url) = None"
    and "ssrTransformResult (urlToModuleMap s url) = None"
    and "transformRequest env url = Inr None"
  shows "instantiateModule L env url s = Some (Rejected (transform_error url), s) \<and>
         (\<forall>x n. unwrapId env x = url \<and> pendingModules s url = None \<longrightarrow>
            ssrLoadModule (Suc n) env x s =
              Some (Rejected (transform_error url), s\<lparr>next_promise := Suc (next_promise s)\<rparr>)) \<and>
         (\<forall>env' e. transformRequest env' url = Inl e \<longrightarrow>
            instantiateModule L env' url s = Some (Rejected e, s))"
proof -
  have inst: "instantiateModule L' env url t = Some (Rejected (transform_error url), t)"
    if "urlToModuleMap t = urlToModuleMap s" for L' t
    using assms that by (simp add: instantiateModule_def transform_result_def)
  have "ssrLoadModule (Suc n) env x s =
          Some (Rejected (transform_error url), s\<lparr>next_promise := Suc (next_promise s)\<rparr>)"
    if "unwrapId env x = url" "pendingModules s url = None" for x n
    using that inst [of "s\<lparr>pendingModules := (pendingModules s)(url \<mapsto> next_promise s),
                          next_promise := Suc (next_promise s)\<rparr>" "ssrLoadModule n env"]
    by (simp add: ssrLoadModule_step_def ssrLoadModule_sync_def on_settled_sync)
  moreover have "instantiateModule L env' url s = Some (Rejected e, s)"
    if "transformRequest env' url = Inl e" for env' e
    using assms that by (simp add: instantiateModule_def transform_result_def)
  ultimately show ?thesis using inst [of s L] by simp
qed

theorem transform_failure_atomic_witness:
  "\<not> truthy (ssrError (urlToModuleMap init_state ''/missing.js'')) \<and>
   ssrModule (urlToModuleMap init_state ''/missing.js'') = None \<and>
   ssrTransformResult (urlToModuleMap init_state ''/missing.js'') = None \<and>
   transformRequest ex_env ''/missing.js'' = Inr None \<and>
   instantiateModule no_loader ex_env ''/missing.js'' init_state
     = Some (Rejected (JError ''failed to load module for ssr: /missing.js''), init_state) \<and>
   ssrLoadModule 1 ex_env ''/@id//missing.js'' init_state
     = Some (Rejected (JError ''failed to load module for ssr: /missing.js''),
             init_state\<lparr>next_promise := 1\<rparr>)"
  using transform_failure_atomic [of init_state "''/missing.js''" ex_env no_loader]
  by (simp add: init_state_def blank_node_def ex_env_def ex_transform_def transform_error_def
      strip_id_prefix_def)

text \<open>
  The error cache, for a thrown value that is truthy (every \<^verbatim>\<open>Error\<close> object is):
  the value a body throws is stored in the record, and an instantiation that finds a
  truthy stored error rejects with it in the unchanged state, so no body runs.
\<close>

lemma execution_error_stored:
  assumes "\<not> truthy (ssrError (urlToModuleMap s url))"
    and "ssrModule (urlToModuleMap s url) = None"
    and "transform_result env url s = Inr (Some b)"
    and "run_body b L env url (length (js_heap s)) (start_instantiation url s) = Some (Abrupt e, s')"
  shows "\<exists>s''. instantiateModule L env url s = Some (Rejected (rethrown e), s'') \<and>
               ssrError (urlToModuleMap s'' url) = e"
  using assms
  by (simp add: instantiateModule_def set_ssrError_def delete_pending_dependencies_def)

lemma execution_error_replayed:
  assumes "truthy (ssrError (urlToModuleMap s url))"
  shows "instantiateModule L env url s = Some (Rejected (ssrError (urlToModuleMap s url)), s)"
    and "unwrapId env x = url \<Longrightarrow> pendingModules s url = None \<Longrightarrow>
         ssrLoadModule (Suc n) env x s =
           Some (Rejected (ssrError (urlToModuleMap s url)), s\<lparr>next_promise := Suc (next_promise s)\<rparr>)"
  using assms
  by (simp_all add: instantiateModule_def ssrLoadModule_step_def ssrLoadModule_sync_def
      on_settled_sync)

lemma truthy_error_cached:
  assumes "truthy e"
    and "\<not> truthy (ssrError (urlToModuleMap s url))"
    and "ssrModule (urlToModuleMap s url) = None"
    and "transform_result env url s = Inr (Some b)"
    and "run_body b L env url (length (js_heap s)) (start_instantiation url s) = Some (Abrupt e, s1)"
  shows "\<exists>s'. instantiateModule L env url s = Some (Rejected e, s') \<and>
              (\<forall>L' env'. instantiateModule L' env' url s' = Some (Rejected e, s'))"
proof -
  from execution_error_stored [OF assms(2-5)] obtain s' where
    first: "instantiateModule L env url s = Some (Rejected (rethrown e), s')"
    and stored: "ssrError (urlToModuleMap s' url) = e"
    by blast
  from assms(1) have "rethrown e = e"
    by (cases e) (auto simp: rethrown_def nullish_def)
  with first stored assms(1) execution_error_replayed(1) [of s' url] show ?thesis
    by auto
qed

lemmas loader_eval =
  ex_env_def ex_transform_def init_state_def strip_id_prefix_def state_after_def outcome_def
  ssrLoadModule_step_def ssrLoadModule_sync_def on_settled_def instantiateModule_def
  transform_result_def start_instantiation_def blank_node_def set_ssrModule_def set_ssrError_def delete_pending_dependencies_def rethrown_def
  nullish_def ssrImport_def is_external_def

text \<open>
  C4. An execution error is meant to be cached: after a body has thrown, every later
  load fails with the stored value and the body does not run again. For a falsy
  thrown value the code does not do so. The module \<^verbatim>\<open>/falsy.js\<close> throws the number
  \<^verbatim>\<open>0\<close>; the first load rejects with it and stores it in the record (\<open>ex_failed\<close> is
  the state it leaves); the test \<^verbatim>\<open>if (mod.ssrError)\<close> of the second load does not see
  it, and the second load, without running the body again, resolves to the exports
  container the failed instantiation left in the record.
\<close>

theorem falsy_error_not_replayed:
  "outcome (ssrLoadModule 1 ex_env ''/falsy.js'' init_state) = Some (Rejected (JNum 0)) \<and>
   ssrError (urlToModuleMap ex_failed ''/falsy.js'') = JNum 0 \<and>
   executed ex_failed = [''/falsy.js''] \<and>
   outcome (ssrLoadModule 1 ex_env ''/falsy.js'' ex_failed) = Some (Resolved (JObj 0)) \<and>
   executed (state_after (ssrLoadModule 1 ex_env ''/falsy.js'' ex_failed) ex_failed) = [''/falsy.js'']"
  by (simp add: ex_failed_def loader_eval)

section \<open>The legacy interop shim\<close>

lemma proxyESM_primitive:
  "isPrimitive m \<Longrightarrow> proxyESM n B h m = Some (Container m)"
  by (simp add: proxyESM_def)

text \<open>
  The proxy the code builds, against the specification's candidate: the captured
  candidate is the specification's, and the target is the first candidate when that
  one carries the module marker, the exports value otherwise.
\<close>

lemma proxyESM_object:
  "\<not> isPrimitive m \<Longrightarrow>
   proxyESM n B h m =
     (case spec_first_candidate n B h m of
        None \<Rightarrow> None
      | Some c \<Rightarrow> map_option (ReadThrough (if spec_carries_marker B h c then c else m))
                   (spec_default_candidate n B h m))"
  by (simp add: proxyESM_def spec_default_candidate_def spec_first_candidate_def
      spec_carries_marker_def split: option.splits)

text \<open>A read without a getter returns.\<close>

lemma js_read_data_only: "data_only h \<Longrightarrow> js_read n B h r k \<noteq> None"
proof (cases "own_property h r k")
  case None
  then show ?thesis by (cases n) simp_all
next
  case (Some p)
  assume d: "data_only h"
  from Some have r: "r < length h" and kp: "(k, p) \<in> set (props (h ! r))"
    by (auto simp: own_property_def split: if_splits dest: map_of_SomeD)
  from r have "h ! r \<in> set h" by simp
  with d kp have "case slot p of Data v \<Rightarrow> True | Getter src k' \<Rightarrow> False"
    unfolding data_only_def list_all_iff by blast
  then obtain v where "slot p = Data v" by (cases "slot p") auto
  with Some show ?thesis by (cases n) auto
qed

lemma get_value_data_only: "data_only h \<Longrightarrow> get_value n B h v k \<noteq> None"
  by (cases v) (simp_all add: js_read_data_only)

lemma proxyESM_data_only:
  assumes "data_only h"
  shows "proxyESM n B h m \<noteq> None"
proof -
  have g: "\<exists>y. get_value n B h v k = Some y" for v k
    using get_value_data_only [OF assms, of n B v k] by auto
  have "\<exists>c. (if has_property B h m default_key then get_value n B h m default_key
               else Some m) = Some c"
    using g [of m default_key] by simp
  then obtain c where c: "(if has_property B h m default_key then get_value n B h m default_key
               else Some m) = Some c" ..
  obtain d where d: "get_value n B h c default_key = Some d"
    using g [of c default_key] by auto
  show ?thesis
    unfolding proxyESM_def using c d by simp
qed

text \<open>
  Where nothing is inherited, \<open>js_read\<close> is the read of own properties \<open>js_get\<close>.
\<close>

lemma js_read_own:
  "(\<And>r k. inherited B r k = None) \<Longrightarrow> js_read n B h r k = js_get n h r k"
  by (induction n arbitrary: r k) (simp_all add: found_def split: option.splits slot.splits)

text \<open>
  The check of the proxy's read never fires on a value that was just read from the
  target itself: an own data property reads as its value.
\<close>

lemma own_data_read:
  assumes "own_property_of h t k = Some p" and "slot p = Data w"
  shows "get_value n B h t k = Some w"
  using assms by (cases t; cases n) simp_all

lemma own_data_has_property:
  "own_property_of h t k = Some p \<Longrightarrow> has_property B h t k"
  by (cases t) simp_all

lemma read_keeps_get_invariant:
  "get_value n B h t k = Some v \<Longrightarrow> \<not> violates_get_invariant h t k v"
  by (auto simp: violates_get_invariant_def own_data_read split: option.splits slot.splits)

text \<open>
  Nor does it fire on the default-export key: when the target has an own data
  property of that name, its value is the one the handler has captured.
\<close>

lemma default_keeps_get_invariant:
  assumes "\<not> isPrimitive m" and "proxyESM n B h m = Some (ReadThrough t d)"
  shows "\<not> violates_get_invariant h t default_key d"
proof (cases "own_property_of h t default_key")
  case None
  then show ?thesis by (simp add: violates_get_invariant_def)
next
  case (Some p)
  show ?thesis
  proof (cases "slot p")
    case (Getter src k')
    with Some show ?thesis by (simp add: violates_get_invariant_def)
  next
    case (Data w)
    have has: "has_property B h t default_key" using Some by (rule own_data_has_property)
    have rd: "get_value n B h t default_key = Some w" using Some Data by (rule own_data_read)
    have "d = w"
      using assms has rd
      by (auto simp: proxyESM_def split: if_splits option.splits)
    with Some Data show ?thesis by (simp add: violates_get_invariant_def)
  qed
qed

lemmas shim_eval =
  ex_legacy_heap_def ex_frozen_heap_def ex_nested_heap_def ex_builtins_def js_freeze_def
  data_property_def own_property_def proxyESM_def isPrimitive_def proxy_get_def proxy_read_def
  violates_get_invariant_def nullish_def found_def type_error_def
  spec_shim_get_def spec_default_candidate_def spec_first_candidate_def spec_carries_marker_def

text \<open>
  C10, as the specification words it, fails in three ways.

  The fallback is taken on a value, not on absence: in \<open>ex_legacy_heap\<close> the module
  (object 0) has the property \<^verbatim>\<open>x\<close>, with the value \<^verbatim>\<open>null\<close>, and the shim reads \<^verbatim>\<open>x\<close>
  as \<^verbatim>\<open>1\<close>, the candidate's \<^verbatim>\<open>x\<close>, where the specification's reading (\<open>spec_shim_get\<close>:
  the underlying property whenever it is present) gives the module's own \<^verbatim>\<open>null\<close>.

  The underlying object is not always the module: in \<open>ex_nested_heap\<close> the value under
  the module's default-export key (object 1) carries the module marker, the proxy is
  built on that object, and the module's own property \<^verbatim>\<open>q\<close>, which is \<^verbatim>\<open>4\<close>, reads as
  \<^verbatim>\<open>undefined\<close>.

  A read can throw: in \<open>ex_frozen_heap\<close> the module of the first example is frozen, the
  handler answers \<^verbatim>\<open>1\<close> for \<^verbatim>\<open>x\<close> as before, and the proxy's check of that answer
  against the frozen \<^verbatim>\<open>null\<close> throws a \<^verbatim>\<open>TypeError\<close>.
\<close>

theorem proxyESM_reads_counterexample:
  "has_property ex_builtins ex_legacy_heap (JObj 0) (StrKey ''x'') \<and>
   proxyESM 0 ex_builtins ex_legacy_heap (JObj 0) = Some (ReadThrough (JObj 0) (JObj 1)) \<and>
   get_value 0 ex_builtins ex_legacy_heap (JObj 0) (StrKey ''x'') = Some JNull \<and>
   spec_shim_get 0 ex_builtins ex_legacy_heap (JObj 0) (StrKey ''x'') = Some JNull \<and>
   shim_get 0 ex_builtins ex_legacy_heap (ReadThrough (JObj 0) (JObj 1)) (StrKey ''x'')
     = Some (Inr (JNum 1)) \<and>
   has_property ex_builtins ex_nested_heap (JObj 0) (StrKey ''q'') \<and>
   proxyESM 0 ex_builtins ex_nested_heap (JObj 0) = Some (ReadThrough (JObj 1) (JObj 1)) \<and>
   get_value 0 ex_builtins ex_nested_heap (JObj 0) (StrKey ''q'') = Some (JNum 4) \<and>
   spec_shim_get 0 ex_builtins ex_nested_heap (JObj 0) (StrKey ''q'') = Some (JNum 4) \<and>
   shim_get 0 ex_builtins ex_nested_heap (ReadThrough (JObj 1) (JObj 1)) (StrKey ''q'')
     = Some (Inr JUndefined) \<and>
   has_property ex_builtins ex_frozen_heap (JObj 0) (StrKey ''x'') \<and>
   proxyESM 0 ex_builtins ex_frozen_heap (JObj 0) = Some (ReadThrough (JObj 0) (JObj 1)) \<and>
   spec_shim_get 0 ex_builtins ex_frozen_heap (JObj 0) (StrKey ''x'') = Some JNull \<and>
   shim_get 0 ex_builtins ex_frozen_heap (ReadThrough (JObj 0) (JObj 1)) (StrKey ''x'')
     = Some (Inl type_error)"
  by (simp add: shim_eval)

text \<open>
  C10, amended. For a primitive \<open>m\<close> the shim is the object \<^verbatim>\<open>{ default: m }\<close>, whose
  only enumerable key is the default-export key and whose default-export key reads as
  \<open>m\<close>. Otherwise it is a proxy that has captured the candidate as the specification
  computes it; the object under the proxy is the first candidate when that one carries
  the module marker, and \<open>m\<close> otherwise. On a heap of data properties the shim always
  returns. Of a proxy \<open>ReadThrough t d\<close> that the shim returns, the default-export key
  reads as \<open>d\<close>; any other key reads as \<open>t\<close>'s value when that value is not \<^verbatim>\<open>null\<close> or
  \<^verbatim>\<open>undefined\<close>; and when it is (as for an absent property), the key reads as the
  candidate's property of that name, \<^verbatim>\<open>undefined\<close> when the candidate is itself \<^verbatim>\<open>null\<close>
  or \<^verbatim>\<open>undefined\<close>, unless \<open>t\<close> has the key as an own data property that is neither
  configurable nor writable and holds another value: then the read throws a
  \<^verbatim>\<open>TypeError\<close>. A read of \<open>t\<close> that exceeds the bound on getter calls does so through
  the proxy. \<open>proxyESM\<close> and the reads take the heap and return no heap: nothing is
  written.
\<close>

theorem proxyESM_read_through:
  "(isPrimitive m \<longrightarrow>
      proxyESM n B h m = Some (Container m) \<and>
      shim_get n B h (Container m) default_key = Some (Inr m) \<and>
      shim_keys h (Container m) = [default_key]) \<and>
   (\<not> isPrimitive m \<longrightarrow>
      proxyESM n B h m =
        (case spec_first_candidate n B h m of
           None \<Rightarrow> None
         | Some c \<Rightarrow> map_option (ReadThrough (if spec_carries_marker B h c then c else m))
                      (spec_default_candidate n B h m))) \<and>
   (data_only h \<longrightarrow> proxyESM n B h m \<noteq> None) \<and>
   (\<not> isPrimitive m \<and> proxyESM n B h m = Some (ReadThrough t d) \<longrightarrow>
      shim_get n B h (ReadThrough t d) default_key = Some (Inr d) \<and>
      (\<forall>k v. k \<noteq> default_key \<and> get_value n B h t k = Some v \<and> \<not> nullish v \<longrightarrow>
         shim_get n B h (ReadThrough t d) k = Some (Inr v)) \<and>
      (\<forall>k v. k \<noteq> default_key \<and> get_value n B h t k = Some v \<and> nullish v \<longrightarrow>
         shim_get n B h (ReadThrough t d) k =
           map_option (\<lambda>w. if violates_get_invariant h t k w then Inl type_error else Inr w)
             (if nullish d then Some JUndefined else get_value n B h d k)) \<and>
      (\<forall>k. k \<noteq> default_key \<and> get_value n B h t k = None \<longrightarrow>
         shim_get n B h (ReadThrough t d) k = None))"
proof (intro conjI impI allI)
  assume "isPrimitive m"
  then show "proxyESM n B h m = Some (Container m)" by (rule proxyESM_primitive)
next
  show "shim_get n B h (Container m) default_key = Some (Inr m)" by simp
next
  show "shim_keys h (Container m) = [default_key]" by simp
next
  assume "\<not> isPrimitive m"
  then show "proxyESM n B h m =
        (case spec_first_candidate n B h m of
           None \<Rightarrow> None
         | Some c \<Rightarrow> map_option (ReadThrough (if spec_carries_marker B h c then c else m))
                      (spec_default_candidate n B h m))"
    by (rule proxyESM_object)
next
  assume "data_only h"
  then show "proxyESM n B h m \<noteq> None" by (rule proxyESM_data_only)
next
  assume "\<not> isPrimitive m \<and> proxyESM n B h m = Some (ReadThrough t d)"
  then have "\<not> violates_get_invariant h t default_key d"
    using default_keeps_get_invariant by blast
  then show "shim_get n B h (ReadThrough t d) default_key = Some (Inr d)"
    by (simp add: proxy_read_def proxy_get_def)
next
  fix k v
  assume "k \<noteq> default_key \<and> get_value n B h t k = Some v \<and> \<not> nullish v"
  then show "shim_get n B h (ReadThrough t d) k = Some (Inr v)"
    using read_keeps_get_invariant [of n B h t k v] by (simp add: proxy_read_def proxy_get_def)
next
  fix k v
  assume "k \<noteq> default_key \<and> get_value n B h t k = Some v \<and> nullish v"
  then show "shim_get n B h (ReadThrough t d) k =
           map_option (\<lambda>w. if violates_get_invariant h t k w then Inl type_error else Inr w)
             (if nullish d then Some JUndefined else get_value n B h d k)"
    by (cases "get_value n B h d k") (simp_all add: proxy_read_def proxy_get_def)
next
  fix k
  assume "k \<noteq> default_key \<and> get_value n B h t k = None"
  then show "shim_get n B h (ReadThrough t d) k = None"
    by (simp add: proxy_read_def proxy_get_def)
qed

theorem proxyESM_read_through_witness:
  "isPrimitive (JStr ''v'') \<and>
   proxyESM 0 ex_builtins ex_legacy_heap (JStr ''v'') = Some (Container (JStr ''v'')) \<and>
   shim_get 0 ex_builtins ex_legacy_heap (Container (JStr ''v'')) default_key
     = Some (Inr (JStr ''v'')) \<and>
   data_only ex_legacy_heap \<and>
   \<not> isPrimitive (JObj 0) \<and>
   spec_first_candidate 0 ex_builtins ex_legacy_heap (JObj 0) = Some (JObj 1) \<and>
   \<not> spec_carries_marker ex_builtins ex_legacy_heap (JObj 1) \<and>
   proxyESM 0 ex_builtins ex_legacy_heap (JObj 0) = Some (ReadThrough (JObj 0) (JObj 1)) \<and>
   shim_get 0 ex_builtins ex_legacy_heap (ReadThrough (JObj 0) (JObj 1)) default_key
     = Some (Inr (JObj 1)) \<and>
   get_value 0 ex_builtins ex_legacy_heap (JObj 0) (StrKey ''y'') = Some JUndefined \<and>
   shim_get 0 ex_builtins ex_legacy_heap (ReadThrough (JObj 0) (JObj 1)) (StrKey ''y'')
     = Some (Inr (JNum 2)) \<and>
   spec_carries_marker ex_builtins ex_nested_heap (JObj 1) \<and>
   proxyESM 0 ex_builtins ex_nested_heap (JObj 0) = Some (ReadThrough (JObj 1) (JObj 1)) \<and>
   get_value 0 ex_builtins ex_nested_heap (JObj 1) (StrKey ''z'') = Some (JNum 5) \<and>
   shim_get 0 ex_builtins ex_nested_heap (ReadThrough (JObj 1) (JObj 1)) (StrKey ''z'')
     = Some (Inr (JNum 5)) \<and>
   proxyESM 0 ex_builtins ex_legacy_heap (JObj 2) = Some (ReadThrough (JObj 2) (JStr ''abc'')) \<and>
   shim_get 0 ex_builtins ex_legacy_heap (ReadThrough (JObj 2) (JStr ''abc'')) (StrKey ''length'')
     = Some (Inr (JNum 3)) \<and>
   violates_get_invariant ex_frozen_heap (JObj 0) (StrKey ''x'') (JNum 1) \<and>
   shim_get 0 ex_builtins ex_frozen_heap (ReadThrough (JObj 0) (JObj 1)) (StrKey ''x'')
     = Some (Inl type_error)"
  using proxyESM_read_through [of "JStr ''v''" 0 ex_builtins ex_legacy_heap]
    proxyESM_read_through [of "JObj 0" 0 ex_builtins ex_legacy_heap "JObj 0" "JObj 1"]
    proxyESM_read_through [of "JObj 0" 0 ex_builtins ex_nested_heap "JObj 1" "JObj 1"]
    proxyESM_read_through [of "JObj 2" 0 ex_builtins ex_legacy_heap "JObj 2" "JStr ''abc''"]
    proxyESM_read_through [of "JObj 0" 0 ex_builtins ex_frozen_heap "JObj 0" "JObj 1"]
  by (simp add: shim_eval data_only_def)

section \<open>Re-export-all\<close>

lemma own_property_update:
  "r < length h \<Longrightarrow> own_property (h[r := obj]) r' k =
     (if r' = r then map_of (props obj) k else own_property h r' k)"
  by (auto simp: own_property_def)

lemma define_property_Some:
  assumes "define_property h r k p = Some h'"
  shows "length h' = length h" and "own_property h' r k = Some p"
    and "k' \<noteq> k \<Longrightarrow> own_property h' r k' = own_property h r k'"
    and "r' \<noteq> r \<Longrightarrow> own_property h' r' k' = own_property h r' k'"
    and "r' \<noteq> r \<Longrightarrow> h' ! r' = h ! r'"
    and "extensible (h' ! r) = extensible (h ! r)"
  using assms
  by (auto simp: define_property_def own_property_def update_conv' map_add_def
      split: if_splits option.splits)

lemma set_alist_update: "set (AList.update k v al) \<subseteq> insert (k, v) (set al)"
  by (induction al) auto

lemma define_property_open:
  assumes "open_container h a" and "configurable p" and "k \<noteq> esModule_key"
  shows "\<exists>h'. define_property h a k p = Some h' \<and> open_container h' a"
proof (cases "map_of (props (h ! a)) k")
  case None
  with assms show ?thesis
    by (auto simp: define_property_def open_container_def)
next
  case (Some old)
  then have "(k, old) \<in> set (props (h ! a))" by (rule map_of_SomeD)
  with assms(1,3) have "configurable old"
    by (auto simp: open_container_def list_all_iff)
  moreover have "list_all (\<lambda>(k, p). configurable p \<or> k = esModule_key)
                   (AList.update k p (props (h ! a)))"
    unfolding list_all_iff
  proof
    fix x
    assume "x \<in> set (AList.update k p (props (h ! a)))"
    then have "x = (k, p) \<or> x \<in> set (props (h ! a))"
      using set_alist_update [of k p "props (h ! a)"] by auto
    with assms(1,2) show "case x of (k, p) \<Rightarrow> configurable p \<or> k = esModule_key"
      by (auto simp: open_container_def list_all_iff)
  qed
  ultimately show ?thesis
    using assms(1) Some by (auto simp: define_property_def open_container_def)
qed

lemma ssrExportAll_loop_open:
  assumes "open_container h a"
  shows "\<exists>h'. ssrExportAll_loop h a src keys = (True, h') \<and> open_container h' a \<and>
           length h' = length h \<and>
           (\<forall>k. own_property h' a k =
                  (if k \<in> set keys \<and> k \<noteq> default_key \<and> k \<noteq> esModule_key
                   then Some (export_getter src k) else own_property h a k)) \<and>
           (\<forall>r k. r \<noteq> a \<longrightarrow> own_property h' r k = own_property h r k)"
  using assms
proof (induction keys arbitrary: h)
  case Nil
  then show ?case by simp
next
  case (Cons key keys)
  show ?case
  proof (cases "key \<noteq> default_key \<and> key \<noteq> esModule_key")
    case False
    with Cons.IH [OF Cons.prems] show ?thesis by auto
  next
    case True
    then have "key \<noteq> esModule_key" by simp
    with define_property_open [OF Cons.prems, of "export_getter src key" key]
    obtain h1 where h1: "define_property h a key (export_getter src key) = Some h1"
      and op: "open_container h1 a"
      by (auto simp: export_getter_def)
    from Cons.IH [OF op] obtain h' where
      loop: "ssrExportAll_loop h1 a src keys = (True, h')" and op': "open_container h' a"
      and len: "length h' = length h1"
      and own: "\<forall>k. own_property h' a k =
                  (if k \<in> set keys \<and> k \<noteq> default_key \<and> k \<noteq> esModule_key
                   then Some (export_getter src k) else own_property h1 a k)"
      and other: "\<forall>r k. r \<noteq> a \<longrightarrow> own_property h' r k = own_property h1 r k"
      by blast
    have "ssrExportAll_loop h a src (key # keys) = (True, h')"
      using True h1 loop by simp
    moreover have "length h' = length h"
      using len define_property_Some(1) [OF h1] by simp
    moreover have "own_property h' a k =
                  (if k \<in> set (key # keys) \<and> k \<noteq> default_key \<and> k \<noteq> esModule_key
                   then Some (export_getter src k) else own_property h a k)" for k
      using own define_property_Some(2,3) [OF h1] True by auto
    moreover have "r \<noteq> a \<longrightarrow> own_property h' r k = own_property h r k" for r k
      using other define_property_Some(4) [OF h1] by auto
    ultimately show ?thesis using op' by blast
  qed
qed

lemma js_get_getter:
  "own_property h a k = Some (export_getter src k') \<Longrightarrow> js_get (Suc n) h a k = js_get n h src k'"
  by (simp add: export_getter_def)

lemma open_container_start:
  "open_container (js_heap (start_instantiation url s)) (length (js_heap s))"
  by (simp add: open_container_def start_instantiation_def set_ssrModule_def new_ssrModule_def)

text \<open>
  C8. On the exports container of a module under construction, \<^verbatim>\<open>ssrExportAll\<close>
  returns normally and installs, for every enumerable string key of the source but
  \<^verbatim>\<open>default\<close> and \<^verbatim>\<open>__esModule\<close>, the getter that reads the source's property of that
  name when it is called: in every later heap in which the container still has this
  getter, reading the key from the container is reading it from the source, whatever
  the source holds by then. The two reserved keys and the keys the source does not
  enumerate are left as they were.
\<close>

theorem ssrExportAll_live_bindings:
  assumes "open_container h exports"
  shows "\<exists>h'. ssrExportAll h exports sourceModule = (True, h') \<and>
           (\<forall>key \<in> set (for_in_keys h sourceModule). key \<noteq> default_key \<and> key \<noteq> esModule_key \<longrightarrow>
              own_property h' exports key = Some (export_getter sourceModule key) \<and>
              (\<forall>n h''. own_property h'' exports key = own_property h' exports key \<longrightarrow>
                 js_get (Suc n) h'' exports key = js_get n h'' sourceModule key)) \<and>
           own_property h' exports default_key = own_property h exports default_key \<and>
           own_property h' exports esModule_key = own_property h exports esModule_key \<and>
           (\<forall>key. key \<notin> set (for_in_keys h sourceModule) \<longrightarrow>
              own_property h' exports key = own_property h exports key)"
proof -
  from ssrExportAll_loop_open [OF assms, of sourceModule "for_in_keys h sourceModule"]
  obtain h' where loop: "ssrExportAll_loop h exports sourceModule (for_in_keys h sourceModule) = (True, h')"
    and own: "\<And>k. own_property h' exports k =
                  (if k \<in> set (for_in_keys h sourceModule) \<and> k \<noteq> default_key \<and> k \<noteq> esModule_key
                   then Some (export_getter sourceModule k) else own_property h exports k)"
    by blast
  show ?thesis
  proof (intro exI conjI ballI impI allI)
    show "ssrExportAll h exports sourceModule = (True, h')"
      using loop by (simp add: ssrExportAll_def)
  next
    fix key
    assume "key \<in> set (for_in_keys h sourceModule)" "key \<noteq> default_key \<and> key \<noteq> esModule_key"
    then show g: "own_property h' exports key = Some (export_getter sourceModule key)"
      using own by simp
    fix n h''
    assume "own_property h'' exports key = own_property h' exports key"
    with g show "js_get (Suc n) h'' exports key = js_get n h'' sourceModule key"
      by (simp add: export_getter_def)
  next
    show "own_property h' exports default_key = own_property h exports default_key"
      using own by simp
    show "own_property h' exports esModule_key = own_property h exports esModule_key"
      using own by simp
  next
    fix key
    assume "key \<notin> set (for_in_keys h sourceModule)"
    then show "own_property h' exports key = own_property h exports key"
      using own by simp
  qed
qed

theorem ssrExportAll_live_bindings_witness:
  "open_container ex_reexport_heap 0 \<and>
   for_in_keys ex_reexport_heap 1 = [StrKey ''a'', StrKey ''b''] \<and>
   ssrExportAll ex_reexport_heap 0 1 = (True, ex_reexported) \<and>
   js_get 1 ex_reexported 0 (StrKey ''a'') = Some (JNum 1) \<and>
   js_get 1 ex_reexported 0 (StrKey ''b'') = Some (JNum 2) \<and>
   js_get 1 ex_reexported 0 default_key = Some JUndefined \<and>
   own_property ex_mutated 0 (StrKey ''a'') = own_property ex_reexported 0 (StrKey ''a'') \<and>
   js_get 0 ex_mutated 1 (StrKey ''a'') = Some (JNum 5) \<and>
   js_get 1 ex_mutated 0 (StrKey ''a'') = Some (JNum 5)"
  using ssrExportAll_live_bindings [of ex_reexport_heap 0 1]
  by (simp add: ex_reexported_def ex_mutated_def ex_reexport_heap_def new_ssrModule_def
      data_property_def open_container_def for_in_keys_def ssrExportAll_def define_property_def
      export_getter_def own_property_def)

section \<open>The identity of the exports object\<close>

lemma exports_stable_refl: "exports_stable s s"
  by (simp add: exports_stable_def)

lemma exports_stable_trans:
  "exports_stable s t \<Longrightarrow> exports_stable t u \<Longrightarrow> exports_stable s u"
  by (simp add: exports_stable_def)

lemma exports_stable_same_records:
  "urlToModuleMap t = urlToModuleMap s \<Longrightarrow> exports_stable s t"
  by (simp add: exports_stable_def)

lemma ssrImport_stable:
  assumes L: "stable_loader L"
    and run: "ssrImport L env url dep dyn s = Some (res, s')"
  shows "exports_stable s s'"
proof -
  let ?s1 = "s\<lparr>pendingModuleDependencyGraph :=
                 addPendingModuleDependency url (unwrapId env dep) (pendingModuleDependencyGraph s)\<rparr>"
  have s1: "exports_stable s ?s1" by (simp add: exports_stable_def)
  from run consider "s' = s" | "s' = ?s1" | "L (unwrapId env dep) s = Some (res, s')"
    | "L (unwrapId env dep) ?s1 = Some (res, s')"
    by (auto simp: ssrImport_def Let_def split: if_splits option.splits)
  then show ?thesis
  proof cases
    case 1 then show ?thesis by (simp add: exports_stable_refl)
  next
    case 2 then show ?thesis using s1 by simp
  next
    case 3 then show ?thesis using L by (auto simp: stable_loader_def)
  next
    case 4
    with L have "exports_stable ?s1 s'" by (auto simp: stable_loader_def)
    with s1 show ?thesis by (rule exports_stable_trans)
  qed
qed

lemma run_body_stable:
  assumes L: "stable_loader L"
  shows "run_body b L env url ex s = Some (c, s') \<Longrightarrow> exports_stable s s'"
proof (induction b arbitrary: s)
  case Return
  then show ?case by (simp add: exports_stable_refl)
next
  case (Throw e)
  then show ?case by (simp add: exports_stable_refl)
next
  case (Import dep k)
  from Import.prems obtain res s1 where
    imp: "ssrImport L env url dep False s = Some (res, s1)"
    by (auto split: option.splits)
  have st: "exports_stable s s1" using L imp by (rule ssrImport_stable)
  show ?case
  proof (cases res)
    case (Resolved m)
    with Import.prems imp have "run_body (k m) L env url ex s1 = Some (c, s')" by simp
    then have "exports_stable s1 s'" by (rule Import.IH [OF rangeI])
    with st show ?thesis by (rule exports_stable_trans)
  next
    case (Rejected e)
    with Import.prems imp st show ?thesis by simp
  next
    case Pending
    with Import.prems imp st show ?thesis by simp
  qed
next
  case (DynamicImport dep k)
  from DynamicImport.prems obtain res s1 where
    imp: "ssrDynamicImport L env url dep s = Some (res, s1)"
    by (auto split: option.splits)
  have st: "exports_stable s s1"
    using L imp unfolding ssrDynamicImport_def by (rule ssrImport_stable)
  show ?case
  proof (cases res)
    case (Resolved m)
    with DynamicImport.prems imp have "run_body (k m) L env url ex s1 = Some (c, s')" by simp
    then have "exports_stable s1 s'" by (rule DynamicImport.IH [OF rangeI])
    with st show ?thesis by (rule exports_stable_trans)
  next
    case (Rejected e)
    with DynamicImport.prems imp st show ?thesis by simp
  next
    case Pending
    with DynamicImport.prems imp st show ?thesis by simp
  qed
next
  case (ExportAll src b)
  obtain ok h' where ex: "ssrExportAll (js_heap s) ex src = (ok, h')"
    by (cases "ssrExportAll (js_heap s) ex src") auto
  have st: "exports_stable s (s\<lparr>js_heap := h'\<rparr>)" by (simp add: exports_stable_def)
  show ?case
  proof (cases ok)
    case True
    with ExportAll.prems ex have "run_body b L env url ex (s\<lparr>js_heap := h'\<rparr>) = Some (c, s')"
      by simp
    then have "exports_stable (s\<lparr>js_heap := h'\<rparr>) s'" by (rule ExportAll.IH)
    with st show ?thesis by (rule exports_stable_trans)
  next
    case False
    with ExportAll.prems ex st show ?thesis by auto
  qed
next
  case (DefineExport key v b)
  show ?case
  proof (cases "define_property (js_heap s) ex (StrKey key)
             \<lparr>slot = Data v, enumerable = True, configurable = True, writable = False\<rparr>")
    case None
    with DefineExport.prems show ?thesis by (simp add: exports_stable_refl)
  next
    case (Some h')
    have st: "exports_stable s (s\<lparr>js_heap := h'\<rparr>)" by (simp add: exports_stable_def)
    from Some DefineExport.prems have "run_body b L env url ex (s\<lparr>js_heap := h'\<rparr>) = Some (c, s')"
      by simp
    then have "exports_stable (s\<lparr>js_heap := h'\<rparr>) s'" by (rule DefineExport.IH)
    with st show ?thesis by (rule exports_stable_trans)
  qed
qed

lemma exports_stable_start:
  "ssrModule (urlToModuleMap s url) = None \<Longrightarrow> exports_stable s (start_instantiation url s)"
  by (auto simp: exports_stable_def start_instantiation_def set_ssrModule_def)

lemma attached_at_start:
  "ssrModule (urlToModuleMap (start_instantiation url s) url) = Some (length (js_heap s))"
  by (simp add: start_instantiation_def set_ssrModule_def)

lemma finish_instantiation_records:
  "finish_instantiation url r (c, s2) = (res, s') \<Longrightarrow>
   ssrModule (urlToModuleMap s' u) = ssrModule (urlToModuleMap s2 u)"
  by (cases c) (auto simp: delete_pending_dependencies_def set_ssrError_def)

lemma finish_instantiation_resolved:
  "finish_instantiation url r (c, s2) = (Resolved m, s') \<Longrightarrow> m = JObj r"
  by (cases c) auto

text \<open>The ways \<^verbatim>\<open>instantiateModule\<close> ends: in the state it started in, or after the body.\<close>

lemma instantiateModule_cases:
  assumes "instantiateModule L env url s = Some (res, s')"
  obtains (early) "s' = s"
      "\<forall>m. res = Resolved m \<longrightarrow> (\<exists>r. m = JObj r \<and> ssrModule (urlToModuleMap s url) = Some r)"
      "\<forall>m. res = Resolved m \<longrightarrow> \<not> truthy (ssrError (urlToModuleMap s url))"
      "\<forall>e. res = Rejected e \<longrightarrow>
         truthy e \<or> transform_result env url s = Inl e"
      "res \<noteq> Pending"
  | (ran) b c s2 where "ssrModule (urlToModuleMap s url) = None"
      "run_body b L env url (length (js_heap s)) (start_instantiation url s) = Some (c, s2)"
      "finish_instantiation url (length (js_heap s)) (c, s2) = (res, s')"
      "transform_result env url s = Inr (Some b)"
proof (cases "truthy (ssrError (urlToModuleMap s url))")
  case True
  with assms have "s' = s" "res = Rejected (ssrError (urlToModuleMap s url))"
    by (auto simp: instantiateModule_def)
  with True show ?thesis by (intro early) auto
next
  case falsy: False
  show ?thesis
  proof (cases "ssrModule (urlToModuleMap s url)")
    case (Some r)
    with assms falsy have "s' = s" "res = Resolved (JObj r)"
      by (auto simp: instantiateModule_def)
    with Some falsy show ?thesis by (intro early) auto
  next
    case None
    show ?thesis
    proof (cases "transform_result env url s")
      case (Inl e)
      with assms falsy None have "s' = s" "res = Rejected e"
        by (auto simp: instantiateModule_def)
      with Inl show ?thesis by (intro early) auto
    next
      case (Inr bo)
      show ?thesis
      proof (cases bo)
        case noresult: None
        with assms falsy None Inr have "s' = s" "res = Rejected (transform_error url)"
          by (auto simp: instantiateModule_def)
        then show ?thesis by (intro early) (auto simp: transform_error_def)
      next
        case (Some b)
        with assms falsy None Inr obtain cs where
          "run_body b L env url (length (js_heap s)) (start_instantiation url s) = Some cs"
          "finish_instantiation url (length (js_heap s)) cs = (res, s')"
          by (auto simp: instantiateModule_def)
        then show ?thesis using None Inr Some by (cases cs) (auto intro: ran)
      qed
    qed
  qed
qed

lemma instantiateModule_stable:
  assumes L: "stable_loader L"
    and run: "instantiateModule L env url s = Some (res, s')"
  shows "exports_stable s s'"
  using run
proof (cases rule: instantiateModule_cases)
  case early
  then show ?thesis by (simp add: exports_stable_refl)
next
  case (ran b c s2)
  have "exports_stable s (start_instantiation url s)"
    using ran(1) by (rule exports_stable_start)
  moreover have "exports_stable (start_instantiation url s) s2"
    using L ran(2) by (rule run_body_stable)
  moreover have "exports_stable s2 s'"
    using finish_instantiation_records [OF ran(3)] by (simp add: exports_stable_def)
  ultimately show ?thesis by (blast intro: exports_stable_trans)
qed

lemma instantiateModule_result:
  assumes L: "stable_loader L"
    and run: "instantiateModule L env url s = Some (Resolved m, s')"
  shows "\<exists>r. m = JObj r \<and> ssrModule (urlToModuleMap s' url) = Some r \<and>
             (ssrModule (urlToModuleMap s url) = None \<longrightarrow> r = length (js_heap s))"
  using run
proof (cases rule: instantiateModule_cases)
  case early
  then show ?thesis by auto
next
  case (ran b c s2)
  have "exports_stable (start_instantiation url s) s2"
    using L ran(2) by (rule run_body_stable)
  then have "ssrModule (urlToModuleMap s2 url) = Some (length (js_heap s))"
    using attached_at_start by (simp add: exports_stable_def)
  then have "ssrModule (urlToModuleMap s' url) = Some (length (js_heap s))"
    using finish_instantiation_records [OF ran(3)] by simp
  moreover have "m = JObj (length (js_heap s))"
    using ran(3) by (rule finish_instantiation_resolved)
  ultimately show ?thesis by simp
qed

lemma urlToModuleMap_sync:
  "ssrLoadModule_sync env x s = (p, b, s1) \<Longrightarrow> urlToModuleMap s1 = urlToModuleMap s"
  by (auto simp: ssrLoadModule_sync_def split: option.splits)

lemma urlToModuleMap_on_settled: "urlToModuleMap (on_settled u s) = urlToModuleMap s"
  by (simp add: on_settled_def)

lemma ssrLoadModule_step_cases:
  assumes "ssrLoadModule_step L env x s = Some (res, s')"
  obtains (joined) p where "ssrLoadModule_sync env x s = (p, False, s')" "res = Pending"
  | (started) p s1 s2 where "ssrLoadModule_sync env x s = (p, True, s1)"
      "instantiateModule L env (unwrapId env x) s1 = Some (res, s2)"
      "s' = (if res = Pending then s2 else on_settled (unwrapId env x) s2)"
proof -
  obtain p b s1 where sync: "ssrLoadModule_sync env x s = (p, b, s1)"
    by (cases "ssrLoadModule_sync env x s") auto
  show ?thesis
  proof (cases b)
    case False
    with assms sync joined show ?thesis by (simp add: ssrLoadModule_step_def)
  next
    case True
    with assms sync obtain r2 s2 where
      inst: "instantiateModule L env (unwrapId env x) s1 = Some (r2, s2)"
      by (auto simp: ssrLoadModule_step_def split: option.splits)
    with assms sync True have "res = r2 \<and> s' = (if res = Pending then s2 else on_settled (unwrapId env x) s2)"
      by (cases r2) (auto simp: ssrLoadModule_step_def)
    with sync True inst started show ?thesis by simp
  qed
qed

lemma ssrLoadModule_step_stable:
  assumes L: "stable_loader L"
    and run: "ssrLoadModule_step L env x s = Some (res, s')"
  shows "exports_stable s s' \<and>
         (\<forall>m. res = Resolved m \<longrightarrow>
            (\<exists>r. m = JObj r \<and> ssrModule (urlToModuleMap s' (unwrapId env x)) = Some r))"
  using run
proof (cases rule: ssrLoadModule_step_cases)
  case (joined p)
  then show ?thesis
    using urlToModuleMap_sync [OF joined(1)] by (simp add: exports_stable_same_records)
next
  case (started p s1 s2)
  have recs: "urlToModuleMap s' = urlToModuleMap s2"
    using started(3) by (simp add: urlToModuleMap_on_settled)
  have "exports_stable s1 s2" using L started(2) by (rule instantiateModule_stable)
  then have "exports_stable s s'"
    using urlToModuleMap_sync [OF started(1)] recs by (simp add: exports_stable_def)
  moreover have "\<exists>r. m = JObj r \<and> ssrModule (urlToModuleMap s' (unwrapId env x)) = Some r"
    if "res = Resolved m" for m
    using instantiateModule_result [OF L, of env "unwrapId env x" s1 m s2] started(2) that recs
    by auto
  ultimately show ?thesis by blast
qed

lemma ssrLoadModule_stable: "stable_loader (ssrLoadModule n env)"
proof (induction n)
  case 0
  then show ?case by (simp add: stable_loader_def)
next
  case (Suc n)
  then show ?case
    using ssrLoadModule_step_stable [of "ssrLoadModule n env" env]
    by (auto simp: stable_loader_def)
qed




section \<open>The exports container during instantiation\<close>

lemma heap_frame_refl: "heap_frame h h"
  by (simp add: heap_frame_def)

lemma heap_frame_trans: "heap_frame h1 h2 \<Longrightarrow> heap_frame h2 h3 \<Longrightarrow> heap_frame h1 h3"
  by (auto simp: heap_frame_def)

lemma open_container_frame:
  "open_container h ex \<Longrightarrow> heap_frame h h' \<Longrightarrow> open_container h' ex"
  by (auto simp: open_container_def heap_frame_def)

lemma ssrImport_framing:
  assumes L: "framing_loader L"
    and run: "ssrImport L env url dep dyn s = Some (res, s')"
  shows "heap_frame (js_heap s) (js_heap s')"
proof (cases "is_external dep")
  case True
  with run show ?thesis by (simp add: ssrImport_def heap_frame_refl)
next
  case internal: False
  show ?thesis
  proof (cases dyn)
    case True
    with internal run have "L (unwrapId env dep) s = Some (res, s')"
      by (simp add: ssrImport_def)
    with L show ?thesis unfolding framing_loader_def by blast
  next
    case False
    let ?s1 = "s\<lparr>pendingModuleDependencyGraph :=
                 addPendingModuleDependency url (unwrapId env dep) (pendingModuleDependencyGraph s)\<rparr>"
    show ?thesis
    proof (cases "checkModuleDependencyExists (pendingModuleDependencyGraph ?s1) (unwrapId env dep) url")
      case True
      with internal False run have "s' = ?s1"
        by (auto simp: ssrImport_def Let_def split: option.splits)
      then show ?thesis by (simp add: heap_frame_refl)
    next
      case nocycle: False
      with internal False run have "L (unwrapId env dep) ?s1 = Some (res, s')"
        by (simp add: ssrImport_def Let_def)
      with L have "heap_frame (js_heap ?s1) (js_heap s')"
        unfolding framing_loader_def by blast
      then show ?thesis by simp
    qed
  qed
qed

lemma body_frame_refl: "open_container h ex \<Longrightarrow> body_frame ex h h"
  by (simp add: body_frame_def)

lemma body_frame_trans: "body_frame ex h1 h2 \<Longrightarrow> body_frame ex h2 h3 \<Longrightarrow> body_frame ex h1 h3"
  by (auto simp: body_frame_def)

lemma body_frame_heap_frame:
  "open_container h ex \<Longrightarrow> heap_frame h h' \<Longrightarrow> body_frame ex h h'"
  by (auto simp: body_frame_def heap_frame_def open_container_def)

lemma body_frame_define_property:
  assumes "open_container h ex" and "define_property h ex k p = Some h'"
    and "open_container h' ex"
  shows "body_frame ex h h'"
  using assms(3) define_property_Some(1,5) [OF assms(2)] by (simp add: body_frame_def)

lemma ssrExportAll_loop_others:
  "ssrExportAll_loop h a src keys = (ok, h') \<Longrightarrow>
   length h' = length h \<and> (\<forall>r. r \<noteq> a \<longrightarrow> h' ! r = h ! r)"
proof (induction keys arbitrary: h)
  case Nil
  then show ?case by simp
next
  case (Cons key keys)
  show ?case
  proof (cases "key \<noteq> default_key \<and> key \<noteq> esModule_key")
    case False
    with Cons show ?thesis by auto
  next
    case True
    show ?thesis
    proof (cases "define_property h a key (export_getter src key)")
      case None
      with True Cons.prems show ?thesis by simp
    next
      case (Some h1)
      with True Cons.prems have "ssrExportAll_loop h1 a src keys = (ok, h')" by simp
      from Cons.IH [OF this] define_property_Some(1,5) [OF Some] show ?thesis by simp
    qed
  qed
qed

lemma body_frame_ssrExportAll:
  assumes "open_container h ex"
  shows "\<exists>h'. ssrExportAll h ex src = (True, h') \<and> body_frame ex h h'"
proof -
  from ssrExportAll_loop_open [OF assms, of src "for_in_keys h src"] obtain h' where
    loop: "ssrExportAll_loop h ex src (for_in_keys h src) = (True, h')"
    and op: "open_container h' ex"
    by blast
  from ssrExportAll_loop_others [OF loop] op have "body_frame ex h h'"
    by (simp add: body_frame_def)
  with loop show ?thesis by (simp add: ssrExportAll_def)
qed

lemma run_body_framing:
  assumes L: "framing_loader L"
  shows "open_container (js_heap s) ex \<Longrightarrow> run_body b L env url ex s = Some (c, s') \<Longrightarrow>
         body_frame ex (js_heap s) (js_heap s')"
proof (induction b arbitrary: s)
  case Return
  then show ?case by (simp add: body_frame_refl)
next
  case (Throw e)
  then show ?case by (simp add: body_frame_refl)
next
  case (Import dep k)
  from Import.prems(2) obtain res s1 where
    imp: "ssrImport L env url dep False s = Some (res, s1)"
    by (auto split: option.splits)
  have "heap_frame (js_heap s) (js_heap s1)" using L imp by (rule ssrImport_framing)
  with Import.prems(1) have bf: "body_frame ex (js_heap s) (js_heap s1)"
    by (rule body_frame_heap_frame)
  then have op1: "open_container (js_heap s1) ex" by (simp add: body_frame_def)
  show ?case
  proof (cases res)
    case (Resolved m)
    with Import.prems(2) imp have "run_body (k m) L env url ex s1 = Some (c, s')" by simp
    with op1 have "body_frame ex (js_heap s1) (js_heap s')" by (rule Import.IH [OF rangeI])
    with bf show ?thesis by (rule body_frame_trans)
  next
    case (Rejected e)
    with Import.prems(2) imp bf show ?thesis by simp
  next
    case Pending
    with Import.prems(2) imp bf show ?thesis by simp
  qed
next
  case (DynamicImport dep k)
  from DynamicImport.prems(2) obtain res s1 where
    imp: "ssrImport L env url (dynamic_specifier env url dep) True s = Some (res, s1)"
    by (auto simp: ssrDynamicImport_def split: option.splits)
  have "heap_frame (js_heap s) (js_heap s1)" using L imp by (rule ssrImport_framing)
  with DynamicImport.prems(1) have bf: "body_frame ex (js_heap s) (js_heap s1)"
    by (rule body_frame_heap_frame)
  then have op1: "open_container (js_heap s1) ex" by (simp add: body_frame_def)
  show ?case
  proof (cases res)
    case (Resolved m)
    with DynamicImport.prems(2) imp have "run_body (k m) L env url ex s1 = Some (c, s')"
      by (simp add: ssrDynamicImport_def)
    with op1 have "body_frame ex (js_heap s1) (js_heap s')"
      by (rule DynamicImport.IH [OF rangeI])
    with bf show ?thesis by (rule body_frame_trans)
  next
    case (Rejected e)
    with DynamicImport.prems(2) imp bf show ?thesis by (simp add: ssrDynamicImport_def)
  next
    case Pending
    with DynamicImport.prems(2) imp bf show ?thesis by (simp add: ssrDynamicImport_def)
  qed
next
  case (ExportAll src b)
  from body_frame_ssrExportAll [OF ExportAll.prems(1), of src] obtain h' where
    ex: "ssrExportAll (js_heap s) ex src = (True, h')" and bf: "body_frame ex (js_heap s) h'"
    by blast
  from ex ExportAll.prems(2) have run: "run_body b L env url ex (s\<lparr>js_heap := h'\<rparr>) = Some (c, s')"
    by simp
  from bf have op': "open_container h' ex" by (simp add: body_frame_def)
  have "body_frame ex (js_heap (s\<lparr>js_heap := h'\<rparr>)) (js_heap s')"
    by (rule ExportAll.IH) (simp_all add: op' run)
  with bf show ?case by (auto intro: body_frame_trans)
next
  case (DefineExport key v b)
  let ?p = "\<lparr>slot = Data v, enumerable = True, configurable = True, writable = False\<rparr>"
  show ?case
  proof (cases "define_property (js_heap s) ex (StrKey key) ?p")
    case None
    with DefineExport.prems show ?thesis by (auto simp: body_frame_refl)
  next
    case (Some h')
    have op': "open_container h' ex"
    proof (cases "StrKey key = esModule_key")
      case False
      with define_property_open [OF DefineExport.prems(1), of ?p "StrKey key"] Some
      show ?thesis by simp
    next
      case True
      from DefineExport.prems(1) Some True have "extensible (h' ! ex)" "ex < length h'"
        using define_property_Some(1,6) [OF Some] by (simp_all add: open_container_def)
      moreover have "list_all (\<lambda>(k, p). configurable p \<or> k = esModule_key) (props (h' ! ex))"
        unfolding list_all_iff
      proof
        fix x
        assume x: "x \<in> set (props (h' ! ex))"
        obtain k p where kp: "x = (k, p)" by (cases x)
        show "case x of (k, p) \<Rightarrow> configurable p \<or> k = esModule_key"
        proof (cases "k = esModule_key")
          case True
          with kp show ?thesis by simp
        next
          case False
          from Some DefineExport.prems(1) have
            "set (props (h' ! ex)) \<subseteq> insert (StrKey key, ?p) (set (props (js_heap s ! ex)))"
            using set_alist_update [of "StrKey key" ?p "props (js_heap s ! ex)"]
            by (auto simp: define_property_def open_container_def split: option.splits if_splits)
          with x kp False True DefineExport.prems(1) show ?thesis
            by (auto simp: open_container_def list_all_iff)
        qed
      qed
      ultimately show ?thesis by (simp add: open_container_def)
    qed
    with DefineExport.prems(1) Some have bf: "body_frame ex (js_heap s) h'"
      by (auto intro: body_frame_define_property)
    from Some DefineExport.prems(2) have run: "run_body b L env url ex (s\<lparr>js_heap := h'\<rparr>) = Some (c, s')"
      by simp
    have "body_frame ex (js_heap (s\<lparr>js_heap := h'\<rparr>)) (js_heap s')"
      by (rule DefineExport.IH) (simp_all add: op' run)
    with bf show ?thesis by (auto intro: body_frame_trans)
  qed
qed


lemma js_freeze_others: "length (js_freeze h a) = length h" "r \<noteq> a \<Longrightarrow> js_freeze h a ! r = h ! r"
  by (simp_all add: js_freeze_def)

lemma finish_instantiation_heap:
  "finish_instantiation url ex (c, s2) = (res, s') \<Longrightarrow>
   length (js_heap s') = length (js_heap s2) \<and> (\<forall>r. r \<noteq> ex \<longrightarrow> js_heap s' ! r = js_heap s2 ! r)"
  by (cases c)
    (auto simp: delete_pending_dependencies_def set_ssrError_def js_freeze_others)

lemma instantiateModule_framing:
  assumes L: "framing_loader L"
    and run: "instantiateModule L env url s = Some (res, s')"
  shows "heap_frame (js_heap s) (js_heap s')"
  using run
proof (cases rule: instantiateModule_cases)
  case early
  then show ?thesis by (simp add: heap_frame_refl)
next
  case (ran b c s2)
  let ?ex = "length (js_heap s)"
  have h1: "js_heap (start_instantiation url s) = js_heap s @ [new_ssrModule]"
    by (simp add: start_instantiation_def set_ssrModule_def)
  from run_body_framing [OF L open_container_start ran(2)]
  have bf: "body_frame ?ex (js_heap s @ [new_ssrModule]) (js_heap s2)" by (simp add: h1)
  from finish_instantiation_heap [OF ran(3)]
  have fh: "length (js_heap s') = length (js_heap s2)"
    "\<And>r. r \<noteq> ?ex \<Longrightarrow> js_heap s' ! r = js_heap s2 ! r" by simp_all
  show ?thesis
    unfolding heap_frame_def
  proof (intro conjI allI impI)
    show "length (js_heap s) \<le> length (js_heap s')"
      using bf fh(1) by (simp add: body_frame_def)
  next
    fix r
    assume r: "r < length (js_heap s)"
    then have "js_heap s2 ! r = (js_heap s @ [new_ssrModule]) ! r"
      using bf by (simp add: body_frame_def)
    with r fh(2) [of r] show "js_heap s' ! r = js_heap s ! r" by (simp add: nth_append)
  qed
qed

lemma ssrLoadModule_framing: "framing_loader (ssrLoadModule n env)"
proof (induction n)
  case 0
  then show ?case by (simp add: framing_loader_def)
next
  case (Suc n)
  show ?case
    unfolding framing_loader_def
  proof (intro allI impI)
    fix x s res s'
    assume "ssrLoadModule (Suc n) env x s = Some (res, s')"
    then have "ssrLoadModule_step (ssrLoadModule n env) env x s = Some (res, s')" by simp
    then show "heap_frame (js_heap s) (js_heap s')"
    proof (cases rule: ssrLoadModule_step_cases)
      case (joined p)
      then show ?thesis
        by (auto simp: ssrLoadModule_sync_def heap_frame_refl split: option.splits)
    next
      case (started p s1 s2)
      from started(1) have "js_heap s1 = js_heap s"
        by (auto simp: ssrLoadModule_sync_def split: option.splits)
      moreover from Suc started(2) have "heap_frame (js_heap s1) (js_heap s2)"
        by (rule instantiateModule_framing)
      moreover from started(3) have "js_heap s' = js_heap s2" by (simp add: on_settled_def)
      ultimately show ?thesis by simp
    qed
  qed
qed

text \<open>
  The container of a module under construction is open at the start of the body and
  stays open while the body runs, whatever the body loads: \<^verbatim>\<open>ssrExportAll\<close> is only
  ever called on such a container.
\<close>

lemma container_open_during_body:
  assumes "run_body b (ssrLoadModule n env) env url (length (js_heap s)) (start_instantiation url s)
           = Some (c, s')"
  shows "open_container (js_heap s') (length (js_heap s))"
  using run_body_framing [OF ssrLoadModule_framing open_container_start assms]
  by (simp add: body_frame_def)

section \<open>Finalization\<close>

lemma frozen_js_freeze: "r < length h \<Longrightarrow> frozen (js_freeze h r) r"
  by (auto simp: frozen_def js_freeze_def list_all_iff)

text \<open>A frozen object takes no new property and no redefinition of one it has.\<close>

lemma frozen_define_property: "frozen h r \<Longrightarrow> define_property h r k p = None"
proof (cases "map_of (props (h ! r)) k")
  case None
  then show "frozen h r \<Longrightarrow> define_property h r k p = None"
    by (simp add: frozen_def define_property_def)
next
  case (Some old)
  then have "(k, old) \<in> set (props (h ! r))" by (rule map_of_SomeD)
  then show "frozen h r \<Longrightarrow> define_property h r k p = None"
    using Some by (auto simp: frozen_def define_property_def list_all_iff)
qed

text \<open>
  What \<^verbatim>\<open>Object.freeze\<close> at the end of \<^verbatim>\<open>instantiateModule\<close> achieves when no
  falsy value is ever thrown: from a finalized state (the initial state is one) every
  load leads to a finalized state, rejects only with a truthy value and resolves only
  to a frozen object; and once a load that started with no other load in flight has
  settled, every exports object attached to a record is frozen or belongs to a module
  whose error is stored, the objects handed to the participants of a cycle included.
\<close>

lemma heap_step_refl: "heap_step h h"
  by (simp add: heap_step_def)

lemma heap_step_append: "heap_step h (h @ [obj])"
  by (auto simp: heap_step_def frozen_def nth_append)

lemma heap_step_define_property:
  assumes "define_property h a k p = Some h'"
  shows "heap_step h h'"
  unfolding heap_step_def
proof (intro conjI allI impI)
  show "length h \<le> length h'" using define_property_Some(1) [OF assms] by simp
next
  fix r
  assume fr: "frozen h r"
  then have "a \<noteq> r" using assms frozen_define_property [of h r k p] by auto
  then have "h' ! r = h ! r" using define_property_Some(5) [OF assms] by simp
  with fr define_property_Some(1) [OF assms] show "frozen h' r" by (simp add: frozen_def)
qed

lemma heap_step_trans: "heap_step h1 h2 \<Longrightarrow> heap_step h2 h3 \<Longrightarrow> heap_step h1 h3"
  by (auto simp: heap_step_def)

lemma heap_step_ssrExportAll_loop:
  "ssrExportAll_loop h a src keys = (ok, h') \<Longrightarrow> heap_step h h'"
proof (induction keys arbitrary: h)
  case Nil
  then show ?case by (simp add: heap_step_refl)
next
  case (Cons key keys)
  show ?case
  proof (cases "key \<noteq> default_key \<and> key \<noteq> esModule_key")
    case False
    with Cons show ?thesis by auto
  next
    case True
    show ?thesis
    proof (cases "define_property h a key (export_getter src key)")
      case None
      with True Cons.prems show ?thesis by (simp add: heap_step_refl)
    next
      case (Some h1)
      with True Cons.prems have "ssrExportAll_loop h1 a src keys = (ok, h')" by simp
      then have "heap_step h1 h'" by (rule Cons.IH)
      with heap_step_define_property [OF Some] show ?thesis by (rule heap_step_trans)
    qed
  qed
qed

lemma heap_step_js_freeze: "heap_step h (js_freeze h a)"
  unfolding heap_step_def
proof (intro conjI allI impI)
  show "length h \<le> length (js_freeze h a)" by (simp add: js_freeze_def)
next
  fix r
  assume fr: "frozen h r"
  show "frozen (js_freeze h a) r"
  proof (cases "a = r")
    case True
    from fr have "r < length h" by (simp add: frozen_def)
    with True show ?thesis by (simp add: frozen_js_freeze)
  next
    case False
    with fr show ?thesis by (simp add: frozen_def js_freeze_def)
  qed
qed

lemma finalized_frame:
  assumes "finalized s" and "urlToModuleMap s' = urlToModuleMap s"
    and "heap_step (js_heap s) (js_heap s')"
    and "\<And>u. pendingModules s' u = None \<Longrightarrow> pendingModules s u = None"
  shows "finalized s'"
  unfolding finalized_def settled_record_def
proof (intro allI conjI impI)
  fix u r
  assume "pendingModules s' u = None" "ssrModule (urlToModuleMap s' u) = Some r"
  with assms(1,2,4) have "truthy (ssrError (urlToModuleMap s u)) \<or> frozen (js_heap s) r"
    by (simp add: finalized_def settled_record_def)
  with assms(2,3) show "truthy (ssrError (urlToModuleMap s' u)) \<or> frozen (js_heap s') r"
    by (auto simp: heap_step_def)
next
  fix u r
  assume "ssrModule (urlToModuleMap s' u) = Some r"
  with assms(1,2) have "r < length (js_heap s)" by (simp add: finalized_def)
  with assms(3) show "r < length (js_heap s')" by (simp add: heap_step_def)
next
  fix u b
  assume "ssrTransformResult (urlToModuleMap s' u) = Some b"
  with assms(1,2) show "throws_truthy b" by (simp add: finalized_def)
qed

lemma finalized_heap_step:
  "finalized s \<Longrightarrow> heap_step (js_heap s) h' \<Longrightarrow> finalized (s\<lparr>js_heap := h'\<rparr>)"
  by (rule finalized_frame) simp_all

lemma finalized_graph:
  "finalized s \<Longrightarrow> finalized (s\<lparr>pendingModuleDependencyGraph := g\<rparr>)"
  by (rule finalized_frame) (simp_all add: heap_step_refl)

lemma finalized_sync:
  assumes fin: "finalized s" and sync: "ssrLoadModule_sync env x s = (p, b, s1)"
  shows "finalized s1"
proof (rule finalized_frame [OF fin])
  show "urlToModuleMap s1 = urlToModuleMap s"
    using sync by (auto simp: ssrLoadModule_sync_def split: option.splits)
  show "heap_step (js_heap s) (js_heap s1)"
    using sync by (auto simp: ssrLoadModule_sync_def heap_step_refl split: option.splits)
  show "pendingModules s u = None" if "pendingModules s1 u = None" for u
    using sync that by (auto simp: ssrLoadModule_sync_def split: option.splits if_splits)
qed

lemma ssrImport_finalized:
  assumes L: "finalizing_loader L" and fin: "finalized s"
    and run: "ssrImport L env url dep dyn s = Some (res, s')"
  shows "finalized s' \<and> (\<forall>e. res = Rejected e \<longrightarrow> truthy e)"
proof (cases "is_external dep")
  case True
  with run have "s' = s"
    and "res = (case nodeImport env url dep of
                  Inl err \<Rightarrow> Rejected (catch_import_error env err) | Inr m \<Rightarrow> Resolved m)"
    by (simp_all add: ssrImport_def)
  then show ?thesis using fin by (cases "nodeImport env url dep") simp_all
next
  case internal: False
  show ?thesis
  proof (cases dyn)
    case True
    with internal run have "L (unwrapId env dep) s = Some (res, s')"
      by (simp add: ssrImport_def)
    with L fin show ?thesis unfolding finalizing_loader_def by blast
  next
    case False
    let ?s1 = "s\<lparr>pendingModuleDependencyGraph :=
                 addPendingModuleDependency url (unwrapId env dep) (pendingModuleDependencyGraph s)\<rparr>"
    have fin1: "finalized ?s1" using fin by (rule finalized_graph)
    show ?thesis
    proof (cases "checkModuleDependencyExists (pendingModuleDependencyGraph ?s1) (unwrapId env dep) url")
      case True
      with internal False run have "s' = ?s1"
        and "res = (case ssrModule (urlToModuleMap s (unwrapId env dep)) of
                      None \<Rightarrow> Rejected uninitialized_cycle_error
                    | Some r \<Rightarrow> Resolved (JObj r))"
        by (auto simp: ssrImport_def Let_def split: option.splits)
      with fin1 show ?thesis
        by (cases "ssrModule (urlToModuleMap s (unwrapId env dep))")
          (simp_all add: uninitialized_cycle_error_def)
    next
      case nocycle: False
      with internal False run have "L (unwrapId env dep) ?s1 = Some (res, s')"
        by (simp add: ssrImport_def Let_def)
      with L fin1 show ?thesis unfolding finalizing_loader_def by blast
    qed
  qed
qed

lemma run_body_finalized:
  assumes L: "finalizing_loader L" and env: "truthy_env env"
  shows "throws_truthy b \<Longrightarrow> finalized s \<Longrightarrow> run_body b L env url ex s = Some (c, s') \<Longrightarrow>
         finalized s' \<and> (\<forall>e. c = Abrupt e \<longrightarrow> truthy e)"
proof (induction b arbitrary: s)
  case Return
  then show ?case by simp
next
  case (Throw e)
  then show ?case by auto
next
  case (Import dep k)
  from Import.prems(3) obtain res s1 where
    imp: "ssrImport L env url dep False s = Some (res, s1)"
    by (auto split: option.splits)
  from ssrImport_finalized [OF L Import.prems(2) imp]
  have fin1: "finalized s1" and rej: "\<forall>e. res = Rejected e \<longrightarrow> truthy e" by simp_all
  show ?case
  proof (cases res)
    case (Resolved m)
    with Import.prems(3) imp have "run_body (k m) L env url ex s1 = Some (c, s')" by simp
    moreover from Import.prems(1) have "throws_truthy (k m)" by simp
    ultimately show ?thesis using fin1 Import.IH [OF rangeI] by blast
  next
    case (Rejected e)
    with Import.prems(3) imp fin1 rej show ?thesis by auto
  next
    case Pending
    with Import.prems(3) imp fin1 show ?thesis by auto
  qed
next
  case (DynamicImport dep k)
  from DynamicImport.prems(3) obtain res s1 where
    imp: "ssrDynamicImport L env url dep s = Some (res, s1)"
    by (auto split: option.splits)
  from ssrImport_finalized [OF L DynamicImport.prems(2) imp [unfolded ssrDynamicImport_def]]
  have fin1: "finalized s1" and rej: "\<forall>e. res = Rejected e \<longrightarrow> truthy e" by simp_all
  show ?case
  proof (cases res)
    case (Resolved m)
    with DynamicImport.prems(3) imp have "run_body (k m) L env url ex s1 = Some (c, s')" by simp
    moreover from DynamicImport.prems(1) have "throws_truthy (k m)" by simp
    ultimately show ?thesis using fin1 DynamicImport.IH [OF rangeI] by blast
  next
    case (Rejected e)
    with DynamicImport.prems(3) imp fin1 rej show ?thesis by auto
  next
    case Pending
    with DynamicImport.prems(3) imp fin1 show ?thesis by auto
  qed
next
  case (ExportAll src b)
  obtain ok h' where ex: "ssrExportAll (js_heap s) ex src = (ok, h')"
    by (cases "ssrExportAll (js_heap s) ex src") auto
  then have "heap_step (js_heap s) h'"
    unfolding ssrExportAll_def by (rule heap_step_ssrExportAll_loop)
  with ExportAll.prems(2) have fin1: "finalized (s\<lparr>js_heap := h'\<rparr>)"
    by (rule finalized_heap_step)
  show ?case
  proof (cases ok)
    case True
    with ExportAll.prems(3) ex have "run_body b L env url ex (s\<lparr>js_heap := h'\<rparr>) = Some (c, s')"
      by simp
    with ExportAll.prems(1) fin1 ExportAll.IH show ?thesis by simp
  next
    case False
    with ExportAll.prems(3) ex fin1 show ?thesis by (auto simp: type_error_def)
  qed
next
  case (DefineExport key v b)
  show ?case
  proof (cases "define_property (js_heap s) ex (StrKey key)
             \<lparr>slot = Data v, enumerable = True, configurable = True, writable = False\<rparr>")
    case None
    with DefineExport.prems show ?thesis by (auto simp: type_error_def)
  next
    case (Some h')
    then have "heap_step (js_heap s) h'" by (rule heap_step_define_property)
    with DefineExport.prems(2) have fin1: "finalized (s\<lparr>js_heap := h'\<rparr>)"
      by (rule finalized_heap_step)
    from Some DefineExport.prems(3) have "run_body b L env url ex (s\<lparr>js_heap := h'\<rparr>) = Some (c, s')"
      by simp
    with DefineExport.prems(1) fin1 DefineExport.IH show ?thesis by simp
  qed
qed

lemma rethrown_truthy: "truthy e \<Longrightarrow> rethrown e = e"
  by (cases e) (auto simp: rethrown_def nullish_def)

lemma finalized_start:
  assumes fin: "finalized s" and inflight: "pendingModules s url \<noteq> None"
  shows "finalized (start_instantiation url s)"
  unfolding finalized_def settled_record_def
proof (intro allI conjI impI)
  fix u r
  assume p: "pendingModules (start_instantiation url s) u = None"
    and a: "ssrModule (urlToModuleMap (start_instantiation url s) u) = Some r"
  from p inflight have "u \<noteq> url" by (auto simp: start_instantiation_def set_ssrModule_def)
  with p a fin have "truthy (ssrError (urlToModuleMap s u)) \<or> frozen (js_heap s) r"
    by (simp add: finalized_def settled_record_def start_instantiation_def set_ssrModule_def)
  then show "truthy (ssrError (urlToModuleMap (start_instantiation url s) u)) \<or>
             frozen (js_heap (start_instantiation url s)) r"
    using \<open>u \<noteq> url\<close> heap_step_append [of "js_heap s" new_ssrModule]
    by (auto simp: start_instantiation_def set_ssrModule_def heap_step_def)
next
  fix u r
  assume a: "ssrModule (urlToModuleMap (start_instantiation url s) u) = Some r"
  show "r < length (js_heap (start_instantiation url s))"
  proof (cases "u = url")
    case True
    with a show ?thesis by (simp add: start_instantiation_def set_ssrModule_def)
  next
    case False
    with a fin have "r < length (js_heap s)"
      by (simp add: finalized_def start_instantiation_def set_ssrModule_def)
    then show ?thesis by (simp add: start_instantiation_def set_ssrModule_def)
  qed
next
  fix u b
  assume "ssrTransformResult (urlToModuleMap (start_instantiation url s) u) = Some b"
  with fin show "throws_truthy b"
    by (cases "u = url") (auto simp: finalized_def start_instantiation_def set_ssrModule_def)
qed

lemma finalized_set_ssrError:
  assumes fin: "finalized s" and "truthy e"
  shows "finalized (delete_pending_dependencies url (set_ssrError url e s))"
  unfolding finalized_def settled_record_def
proof (intro allI conjI impI)
  fix u r
  assume "pendingModules (delete_pending_dependencies url (set_ssrError url e s)) u = None"
    and "ssrModule (urlToModuleMap (delete_pending_dependencies url (set_ssrError url e s)) u) = Some r"
  with assms show "truthy (ssrError (urlToModuleMap (delete_pending_dependencies url (set_ssrError url e s)) u)) \<or>
             frozen (js_heap (delete_pending_dependencies url (set_ssrError url e s))) r"
    by (cases "u = url")
      (auto simp: finalized_def settled_record_def delete_pending_dependencies_def set_ssrError_def)
next
  fix u r
  assume "ssrModule (urlToModuleMap (delete_pending_dependencies url (set_ssrError url e s)) u) = Some r"
  with fin show "r < length (js_heap (delete_pending_dependencies url (set_ssrError url e s)))"
    by (cases "u = url")
      (auto simp: finalized_def delete_pending_dependencies_def set_ssrError_def)
next
  fix u b
  assume "ssrTransformResult (urlToModuleMap (delete_pending_dependencies url (set_ssrError url e s)) u) = Some b"
  with fin show "throws_truthy b"
    by (cases "u = url")
      (auto simp: finalized_def delete_pending_dependencies_def set_ssrError_def)
qed

lemma finalized_freeze:
  assumes fin: "finalized s"
  shows "finalized ((delete_pending_dependencies url s)\<lparr>js_heap := js_freeze (js_heap s) r\<rparr>)"
  by (rule finalized_frame [OF fin])
    (simp_all add: delete_pending_dependencies_def heap_step_js_freeze)

lemma throws_truthy_transform_result:
  "truthy_env env \<Longrightarrow> finalized s \<Longrightarrow> transform_result env url s = Inr (Some b) \<Longrightarrow>
   throws_truthy b"
  by (auto simp: transform_result_def truthy_env_def finalized_def split: option.splits)

lemma instantiateModule_finalized:
  assumes st: "stable_loader L" and L: "finalizing_loader L" and env: "truthy_env env"
    and fin: "finalized s" and inflight: "pendingModules s url \<noteq> None"
    and own: "settled_record s url"
    and run: "instantiateModule L env url s = Some (res, s')"
  shows "finalized s' \<and> (res \<noteq> Pending \<longrightarrow> settled_record s' url) \<and>
         (\<forall>e. res = Rejected e \<longrightarrow> truthy e) \<and>
         (\<forall>m. res = Resolved m \<longrightarrow> (\<exists>r. m = JObj r \<and> frozen (js_heap s') r))"
  using run
proof (cases rule: instantiateModule_cases)
  case early
  have "truthy e" if "res = Rejected e" for e
    using early(4) that env by (auto simp: transform_result_def truthy_env_def split: option.splits)
  moreover have "\<exists>r. m = JObj r \<and> frozen (js_heap s') r" if "res = Resolved m" for m
    using early(1,2,3) that own by (auto simp: settled_record_def)
  ultimately show ?thesis using early(1) fin own by blast
next
  case (ran b c s2)
  let ?r = "length (js_heap s)"
  have tb: "throws_truthy b" using env fin ran(4) by (rule throws_truthy_transform_result)
  have fin1: "finalized (start_instantiation url s)" using fin inflight by (rule finalized_start)
  from run_body_finalized [OF L env tb fin1 ran(2)]
  have fin2: "finalized s2" and thrown: "\<forall>e. c = Abrupt e \<longrightarrow> truthy e" by simp_all
  have "exports_stable (start_instantiation url s) s2" using st ran(2) by (rule run_body_stable)
  then have att: "ssrModule (urlToModuleMap s2 url) = Some ?r"
    using attached_at_start by (simp add: exports_stable_def)
  with fin2 have valid: "?r < length (js_heap s2)" by (simp add: finalized_def)
  show ?thesis
  proof (cases c)
    case Normal
    with ran(3) have res: "res = Resolved (JObj ?r)"
      and s': "s' = (delete_pending_dependencies url s2)\<lparr>js_heap := js_freeze (js_heap s2) ?r\<rparr>"
      by simp_all
    have "frozen (js_heap s') ?r" using s' valid by (simp add: frozen_js_freeze)
    moreover have "ssrModule (urlToModuleMap s' url) = Some ?r"
      using s' att by (simp add: delete_pending_dependencies_def)
    moreover have "finalized s'" unfolding s' using fin2 by (rule finalized_freeze)
    ultimately show ?thesis using res by (simp add: settled_record_def)
  next
    case (Abrupt e)
    with thrown have te: "truthy e" by simp
    from Abrupt ran(3) have res: "res = Rejected (rethrown e)"
      and s': "s' = delete_pending_dependencies url (set_ssrError url e s2)"
      by simp_all
    have "finalized s'" unfolding s' using fin2 te by (rule finalized_set_ssrError)
    moreover have "settled_record s' url"
      using te by (simp add: s' settled_record_def delete_pending_dependencies_def set_ssrError_def)
    ultimately show ?thesis using res te by (simp add: rethrown_truthy)
  next
    case Stuck
    with ran(3) fin2 show ?thesis by simp
  qed
qed

lemma finalized_on_settled:
  "finalized s \<Longrightarrow> settled_record s url \<Longrightarrow> finalized (on_settled url s)"
  by (auto simp: finalized_def settled_record_def on_settled_def)

lemma ssrLoadModule_step_finalized:
  assumes st: "stable_loader L" and L: "finalizing_loader L" and env: "truthy_env env"
    and fin: "finalized s"
    and run: "ssrLoadModule_step L env x s = Some (res, s')"
  shows "finalized s' \<and> (\<forall>e. res = Rejected e \<longrightarrow> truthy e) \<and>
         (\<forall>m. res = Resolved m \<longrightarrow> (\<exists>r. m = JObj r \<and> frozen (js_heap s') r))"
  using run
proof (cases rule: ssrLoadModule_step_cases)
  case (joined p)
  from fin joined(1) have "finalized s'" by (rule finalized_sync)
  with joined(2) show ?thesis by simp
next
  case (started p s1 s2)
  let ?u = "unwrapId env x"
  from started(1) have none: "pendingModules s ?u = None"
    and s1: "s1 = s\<lparr>pendingModules := (pendingModules s)(?u \<mapsto> next_promise s),
                      next_promise := Suc (next_promise s)\<rparr>"
    by (auto simp: ssrLoadModule_sync_def split: option.splits)
  have fin1: "finalized s1" using fin started(1) by (rule finalized_sync)
  have own: "settled_record s1 ?u"
    using fin none by (simp add: s1 finalized_def settled_record_def)
  have inflight: "pendingModules s1 ?u \<noteq> None" by (simp add: s1)
  from instantiateModule_finalized [OF st L env fin1 inflight own started(2)]
  have fin2: "finalized s2" and own2: "res \<noteq> Pending \<longrightarrow> settled_record s2 ?u"
    and rej: "\<forall>e. res = Rejected e \<longrightarrow> truthy e"
    and fro: "\<forall>m. res = Resolved m \<longrightarrow> (\<exists>r. m = JObj r \<and> frozen (js_heap s2) r)"
    by simp_all
  show ?thesis
  proof (cases "res = Pending")
    case True
    with started(3) fin2 show ?thesis by simp
  next
    case False
    with started(3) have s': "s' = on_settled ?u s2" by simp
    with fin2 own2 False have "finalized s'" by (simp add: finalized_on_settled)
    moreover have "js_heap s' = js_heap s2" by (simp add: s' on_settled_def)
    ultimately show ?thesis using rej fro by simp
  qed
qed

lemma ssrLoadModule_finalizing:
  "truthy_env env \<Longrightarrow> finalizing_loader (ssrLoadModule n env)"
proof (induction n)
  case 0
  then show ?case by (simp add: finalizing_loader_def)
next
  case (Suc n)
  show ?case
    unfolding finalizing_loader_def
  proof (intro allI impI, elim conjE)
    fix u s res s'
    assume fin: "finalized s" and run: "ssrLoadModule (Suc n) env u s = Some (res, s')"
    from run have "ssrLoadModule_step (ssrLoadModule n env) env u s = Some (res, s')" by simp
    from ssrLoadModule_step_finalized [OF ssrLoadModule_stable Suc.IH [OF Suc.prems] Suc.prems fin this]
    show "finalized s' \<and> (\<forall>e. res = Rejected e \<longrightarrow> truthy e)" by simp
  qed
qed

lemma finalized_init_state: "finalized init_state"
  by (simp add: finalized_def settled_record_def init_state_def blank_node_def)

lemma completed_load_finalized:
  assumes "truthy_env env" and "finalized s" and "ssrLoadModule n env x s = Some (res, s')"
  shows "finalized s' \<and> (\<forall>e. res = Rejected e \<longrightarrow> truthy e) \<and>
         (\<forall>m. res = Resolved m \<longrightarrow> (\<exists>r. m = JObj r \<and> frozen (js_heap s') r))"
proof (cases n)
  case 0
  with assms show ?thesis by simp
next
  case (Suc k)
  with assms(3) have "ssrLoadModule_step (ssrLoadModule k env) env x s = Some (res, s')" by simp
  with ssrLoadModule_stable ssrLoadModule_finalizing [OF assms(1)] assms(1,2)
  show ?thesis by (rule ssrLoadModule_step_finalized)
qed

lemma ssrImport_restoring:
  assumes L: "restoring_loader L"
    and run: "ssrImport L env url dep dyn s = Some (res, s')" and "res \<noteq> Pending"
  shows "pendingModules s' = pendingModules s"
proof (cases "is_external dep")
  case True
  with run show ?thesis by (simp add: ssrImport_def)
next
  case internal: False
  show ?thesis
  proof (cases dyn)
    case True
    with internal run have "L (unwrapId env dep) s = Some (res, s')"
      by (simp add: ssrImport_def)
    with L assms(3) show ?thesis unfolding restoring_loader_def by blast
  next
    case False
    let ?s1 = "s\<lparr>pendingModuleDependencyGraph :=
                 addPendingModuleDependency url (unwrapId env dep) (pendingModuleDependencyGraph s)\<rparr>"
    show ?thesis
    proof (cases "checkModuleDependencyExists (pendingModuleDependencyGraph ?s1) (unwrapId env dep) url")
      case True
      with internal False run have "s' = ?s1"
        by (auto simp: ssrImport_def Let_def split: option.splits)
      then show ?thesis by simp
    next
      case nocycle: False
      with internal False run have "L (unwrapId env dep) ?s1 = Some (res, s')"
        by (simp add: ssrImport_def Let_def)
      with L assms(3) have "pendingModules s' = pendingModules ?s1"
        unfolding restoring_loader_def by blast
      then show ?thesis by simp
    qed
  qed
qed

lemma run_body_restoring:
  assumes L: "restoring_loader L"
  shows "run_body b L env url ex s = Some (c, s') \<Longrightarrow> c \<noteq> Stuck \<Longrightarrow>
         pendingModules s' = pendingModules s"
proof (induction b arbitrary: s)
  case Return
  then show ?case by simp
next
  case (Throw e)
  then show ?case by simp
next
  case (Import dep k)
  from Import.prems(1) obtain res s1 where
    imp: "ssrImport L env url dep False s = Some (res, s1)"
    by (auto split: option.splits)
  show ?case
  proof (cases res)
    case (Resolved m)
    with Import.prems(1) imp have "run_body (k m) L env url ex s1 = Some (c, s')" by simp
    then have "pendingModules s' = pendingModules s1"
      using Import.prems(2) by (rule Import.IH [OF rangeI])
    moreover have "pendingModules s1 = pendingModules s"
      using L imp Resolved by (auto intro: ssrImport_restoring)
    ultimately show ?thesis by simp
  next
    case (Rejected e)
    with Import.prems(1) imp have "s' = s1" by simp
    moreover have "pendingModules s1 = pendingModules s"
      using L imp Rejected by (auto intro: ssrImport_restoring)
    ultimately show ?thesis by simp
  next
    case Pending
    with Import.prems imp show ?thesis by simp
  qed
next
  case (DynamicImport dep k)
  from DynamicImport.prems(1) obtain res s1 where
    imp: "ssrImport L env url (dynamic_specifier env url dep) True s = Some (res, s1)"
    by (auto simp: ssrDynamicImport_def split: option.splits)
  show ?case
  proof (cases res)
    case (Resolved m)
    with DynamicImport.prems(1) imp have "run_body (k m) L env url ex s1 = Some (c, s')"
      by (simp add: ssrDynamicImport_def)
    then have "pendingModules s' = pendingModules s1"
      using DynamicImport.prems(2) by (rule DynamicImport.IH [OF rangeI])
    moreover have "pendingModules s1 = pendingModules s"
      using L imp Resolved by (auto intro: ssrImport_restoring)
    ultimately show ?thesis by simp
  next
    case (Rejected e)
    with DynamicImport.prems(1) imp have "s' = s1" by (simp add: ssrDynamicImport_def)
    moreover have "pendingModules s1 = pendingModules s"
      using L imp Rejected by (auto intro: ssrImport_restoring)
    ultimately show ?thesis by simp
  next
    case Pending
    with DynamicImport.prems imp show ?thesis by (simp add: ssrDynamicImport_def)
  qed
next
  case (ExportAll src b)
  obtain ok h' where ex: "ssrExportAll (js_heap s) ex src = (ok, h')"
    by (cases "ssrExportAll (js_heap s) ex src") auto
  show ?case
  proof (cases ok)
    case True
    with ExportAll.prems(1) ex have "run_body b L env url ex (s\<lparr>js_heap := h'\<rparr>) = Some (c, s')"
      by simp
    with ExportAll.IH ExportAll.prems(2) show ?thesis by fastforce
  next
    case False
    with ExportAll.prems(1) ex show ?thesis by auto
  qed
next
  case (DefineExport key v b)
  show ?case
  proof (cases "define_property (js_heap s) ex (StrKey key)
             \<lparr>slot = Data v, enumerable = True, configurable = True, writable = False\<rparr>")
    case None
    with DefineExport.prems show ?thesis by auto
  next
    case (Some h')
    with DefineExport.prems(1) have "run_body b L env url ex (s\<lparr>js_heap := h'\<rparr>) = Some (c, s')"
      by simp
    with DefineExport.IH DefineExport.prems(2) show ?thesis by fastforce
  qed
qed

lemma instantiateModule_restoring:
  assumes L: "restoring_loader L"
    and run: "instantiateModule L env url s = Some (res, s')" and "res \<noteq> Pending"
  shows "pendingModules s' = pendingModules s"
  using run
proof (cases rule: instantiateModule_cases)
  case early
  then show ?thesis by simp
next
  case (ran b c s2)
  from ran(3) assms(3) have "c \<noteq> Stuck" by (cases c) auto
  with L ran(2) have "pendingModules s2 = pendingModules (start_instantiation url s)"
    by (rule run_body_restoring)
  moreover have "pendingModules s' = pendingModules s2"
    using ran(3) by (cases c) (auto simp: delete_pending_dependencies_def set_ssrError_def)
  ultimately show ?thesis by (simp add: start_instantiation_def set_ssrModule_def)
qed

lemma ssrLoadModule_restoring: "restoring_loader (ssrLoadModule n env)"
proof (induction n)
  case 0
  then show ?case by (simp add: restoring_loader_def)
next
  case (Suc n)
  show ?case
    unfolding restoring_loader_def
  proof (intro allI impI, elim conjE)
    fix x s res s'
    assume run: "ssrLoadModule (Suc n) env x s = Some (res, s')" and np: "res \<noteq> Pending"
    from run have "ssrLoadModule_step (ssrLoadModule n env) env x s = Some (res, s')" by simp
    then show "pendingModules s' = pendingModules s"
    proof (cases rule: ssrLoadModule_step_cases)
      case (joined p)
      with np show ?thesis by simp
    next
      case (started p s1 s2)
      from started(1) have none: "pendingModules s (unwrapId env x) = None"
        and s1: "pendingModules s1 = (pendingModules s)(unwrapId env x \<mapsto> next_promise s)"
        by (auto simp: ssrLoadModule_sync_def split: option.splits)
      from Suc.IH started(2) np have "pendingModules s2 = pendingModules s1"
        by (rule instantiateModule_restoring)
      with started(3) np s1 none show ?thesis
        by (simp add: on_settled_def fun_upd_idem)
    qed
  qed
qed

lemma settled_load_finalized:
  assumes "truthy_env env" and "finalized s" and "pendingModules s = Map.empty"
    and "ssrLoadModule n env x s = Some (res, s')" and "res \<noteq> Pending"
  shows "settled_record s' u"
proof -
  have "pendingModules s' = pendingModules s"
    using ssrLoadModule_restoring [of n env] assms(4,5) unfolding restoring_loader_def by blast
  with assms(3) have "pendingModules s' u = None" by simp
  moreover have "finalized s'"
    using completed_load_finalized [OF assms(1,2,4)] by simp
  ultimately show ?thesis by (simp add: finalized_def)
qed

text \<open>
  C9. Every exports object a completed load hands out is meant to be frozen. The
  second load of \<^verbatim>\<open>/falsy.js\<close>, the module that throws \<^verbatim>\<open>0\<close> (see C4), completes:
  it resolves to the exports container the failed instantiation left in the record.
  That object was never frozen; a property can still be added to it.
\<close>

theorem falsy_error_exports_not_frozen:
  "outcome (ssrLoadModule 1 ex_env ''/falsy.js'' ex_failed) = Some (Resolved (JObj 0)) \<and>
   \<not> frozen (js_heap (state_after (ssrLoadModule 1 ex_env ''/falsy.js'' ex_failed) ex_failed)) 0 \<and>
   define_property (js_heap (state_after (ssrLoadModule 1 ex_env ''/falsy.js'' ex_failed) ex_failed))
     0 (StrKey ''late'') (data_property (JNum 1)) \<noteq> None"
  by (simp add: ex_failed_def loader_eval new_ssrModule_def frozen_def define_property_def)

end
